theory Spec2Isabelle
  imports Main "HOL-Library.Word"
begin

section \<open>The code-generation dispatcher of Active Harmony\<close>

text \<open>
  A shallow embedding of \<^verbatim>\<open>code-server/standalone/code_generator.cxx\<close>.
  C strings are \<^typ>\<open>string\<close> (the characters before the terminating NUL), the C
  type \<^verbatim>\<open>long\<close> and process identifiers are \<^typ>\<open>int\<close>, raw bytes are
  \<^typ>\<open>8 word\<close>.  Global variables of the program are fields of explicit records that
  are passed to and returned from the functions that touch them.  What the operating
  system decides (the outcome of \<^verbatim>\<open>system\<close>, \<^verbatim>\<open>fork\<close>, \<^verbatim>\<open>waitpid\<close>) is an
  argument of the model.
\<close>

subsection \<open>Data model\<close>

type_synonym byte = "8 word"

datatype hval_type = HVAL_UNKNOWN | HVAL_INT | HVAL_REAL | HVAL_STR

text \<open>\<^verbatim>\<open>hval_t\<close>: a type tag and a union, of which the program reads the member \<^verbatim>\<open>value.i\<close>.\<close>

record hval_t =
  type :: hval_type
  value_i :: int

text \<open>\<^verbatim>\<open>hpoint_t\<close>: the index array \<^verbatim>\<open>idx\<close>; \<^verbatim>\<open>idx_cap\<close> is its length.\<close>

record hpoint_t =
  idx :: "int list"

text \<open>
  \<^verbatim>\<open>hmesg_t\<close>: the serialised bytes \<^verbatim>\<open>buf\<close> and the decoded candidate point
  \<^verbatim>\<open>data.fetch.cand\<close>.
\<close>

record hmesg_t =
  buf :: "byte list"
  cand :: hpoint_t

definition HMESG_INITIALIZER :: hmesg_t where
  "HMESG_INITIALIZER = \<lparr>buf = [], cand = \<lparr>idx = []\<rparr>\<rparr>"

record generator_t =
  pid :: int
  step :: int
  mesg :: hmesg_t
  hostname :: string

record url_t =
  path :: string
  host :: string
  user :: string
  port :: string

text \<open>The configuration values passed in from the Harmony server (global variables).\<close>

record config =
  appname :: string
  slave_path :: string
  local_url :: url_t
  reply_url :: url_t
  target_url :: url_t

subsection \<open>Printing a \<^verbatim>\<open>long\<close> in decimal (the stream operator \<^verbatim>\<open><<\<close>)\<close>

definition digit_char :: "nat \<Rightarrow> char" where
  "digit_char d = ''0123456789'' ! d"

function digits_of :: "nat \<Rightarrow> string" where
  "digits_of n =
     (if n < 10 then [digit_char n] else digits_of (n div 10) @ [digit_char (n mod 10)])"
  by pat_completeness auto
termination
  by (relation "measure id") auto

declare digits_of.simps [simp del]

definition show_long :: "int \<Rightarrow> string" where
  "show_long i = (if i < 0 then CHR ''-'' # digits_of (nat (- i)) else digits_of (nat i))"

subsection \<open>\<^verbatim>\<open>values_of\<close> and the bash array literals\<close>

text \<open>
  \<^verbatim>\<open>index_value(&sess->sig, i, pt->idx[i], &val)\<close> is not part of this file; it is the
  argument \<open>index_value\<close>, from the position and the index to the value.
  The loop stops at the first value that is not an integer, after emptying \<^verbatim>\<open>retval\<close>.
\<close>

fun values_of_loop :: "(nat \<Rightarrow> int \<Rightarrow> hval_t) \<Rightarrow> int list \<Rightarrow> nat \<Rightarrow> int list \<Rightarrow> int list" where
  "values_of_loop index_value [] i retval = retval"
| "values_of_loop index_value (x # xs) i retval =
     (let val = index_value i x in
      if type val \<noteq> HVAL_INT then []
      else values_of_loop index_value xs (Suc i) (retval @ [value_i val]))"

definition values_of :: "(nat \<Rightarrow> int \<Rightarrow> hval_t) \<Rightarrow> hpoint_t \<Rightarrow> int list" where
  "values_of index_value pt = values_of_loop index_value (idx pt) 0 []"

text \<open>The body of the three printing loops: every value followed by one blank.\<close>

fun print_values :: "int list \<Rightarrow> string" where
  "print_values [] = []"
| "print_values (v # vs) = show_long v @ '' '' @ print_values vs"

definition vector_to_string :: "int list \<Rightarrow> string" where
  "vector_to_string v = '' '' @ print_values v"

text \<open>\<open>CHR 0x22\<close> is the double quote, \<open>CHR 0x5C\<close> the backslash.\<close>

definition vector_to_bash_array_remote :: "int list \<Rightarrow> string" where
  "vector_to_bash_array_remote v =
     [CHR 0x5C, CHR 0x22] @ print_values v @ [CHR 0x5C, CHR 0x22] @ '' ''"

definition vector_to_bash_array_local :: "int list \<Rightarrow> string" where
  "vector_to_bash_array_local v = [CHR 0x22] @ print_values v @ [CHR 0x22] @ '' ''"

subsection \<open>\<^verbatim>\<open>generator_main\<close>\<close>

text \<open>\<^verbatim>\<open>std::string::find\<close> of a one-character pattern; \<open>None\<close> is \<^verbatim>\<open>npos\<close>.\<close>

fun str_find :: "char \<Rightarrow> string \<Rightarrow> nat option" where
  "str_find c [] = None"
| "str_find c (x # xs) =
     (if x = c then Some 0 else (case str_find c xs of None \<Rightarrow> None | Some n \<Rightarrow> Some (Suc n)))"

text \<open>\<^verbatim>\<open>s.substr(0, n)\<close>; with \<^verbatim>\<open>npos\<close> the whole string.\<close>

definition substr0 :: "string \<Rightarrow> nat option \<Rightarrow> string" where
  "substr0 s n = (case n of None \<Rightarrow> s | Some k \<Rightarrow> take k s)"

definition generator_name :: "string \<Rightarrow> string" where
  "generator_name hn = substr0 hn (str_find (CHR ''_'') hn)"

text \<open>The command line that \<^verbatim>\<open>generator_main\<close> assembles in \<^verbatim>\<open>ss\<close>.\<close>

definition generator_command :: "config \<Rightarrow> generator_t \<Rightarrow> int list \<Rightarrow> string" where
  "generator_command cfg gen vals =
     (let gname = generator_name (hostname gen);
          flag = (gname = host (local_url cfg))
      in (if \<not> flag then ''ssh '' @ gname @ '' '' else [])
         @ ''exec '' @ slave_path cfg @ ''/'' @ hostname gen
         @ ''_'' @ appname cfg @ ''/chill_script.'' @ appname cfg @ ''.sh ''
         @ (if flag then vector_to_bash_array_local vals
            else vector_to_bash_array_remote vals)
         @ gname @ '' ''
         @ slave_path cfg @ ''/'' @ hostname gen @ ''_'' @ appname cfg @ '' ''
         @ host (target_url cfg) @ '' ''
         @ path (target_url cfg))"

text \<open>
  \<open>logger\<close>: the message is appended to the log file; when the file cannot be opened the
  process ends with \<^verbatim>\<open>exit(1)\<close>.  The log file is its content, \<open>None\<close> when it cannot be
  opened; the result \<open>None\<close> is that exit.
\<close>

definition logger :: "string option \<Rightarrow> string \<Rightarrow> string option" where
  "logger log_file message = (case log_file of None \<Rightarrow> None | Some old \<Rightarrow> Some (old @ message))"

text \<open>
  The child process.  It extracts the values and writes the line
  \<^verbatim>\<open><hostname>: <values>\<close> to the log (\<open>CHR 0x0A\<close> is the newline), which ends the child
  with code 1 when the log cannot be opened.  Then it assembles the command, runs it through
  \<^verbatim>\<open>system\<close> (the argument \<open>sys\<close>, from the command line to the value \<^verbatim>\<open>system\<close>
  returns), prints that value, and calls \<^verbatim>\<open>exit(0)\<close>.  The result is the command that
  was run with the value of \<^verbatim>\<open>sys_return\<close> (\<open>None\<close> when no command was run), the exit
  code of the child, and the log file afterwards.
\<close>

definition generator_main ::
  "(nat \<Rightarrow> int \<Rightarrow> hval_t) \<Rightarrow> string option \<Rightarrow> (string \<Rightarrow> int) \<Rightarrow> config \<Rightarrow> generator_t \<Rightarrow>
     (string \<times> int) option \<times> nat \<times> string option" where
  "generator_main index_value log_file sys cfg gen =
     (let vals = values_of index_value (cand (mesg gen)) in
      case logger log_file (hostname gen @ '': '' @ vector_to_string vals @ [CHR 0x0A]) of
        None \<Rightarrow> (None, 1, None)
      | Some log' \<Rightarrow>
          (let cmd = generator_command cfg gen vals;
               sys_return = sys cmd
           in (Some (cmd, sys_return), 0, Some log')))"

subsection \<open>\<^verbatim>\<open>url_parse\<close>\<close>

text \<open>\<^verbatim>\<open>strstr(s, pat)\<close>: the offset of the first occurrence of \<open>pat\<close>, \<open>None\<close> for \<^verbatim>\<open>NULL\<close>.\<close>

fun strstr :: "string \<Rightarrow> string \<Rightarrow> nat option" where
  "strstr [] pat = (if pat = [] then Some 0 else None)"
| "strstr (x # xs) pat =
     (if take (length pat) (x # xs) = pat then Some 0
      else (case strstr xs pat of None \<Rightarrow> None | Some n \<Rightarrow> Some (Suc n)))"

text \<open>
  \<^verbatim>\<open>strncmp(a, b, n) == 0\<close>: the first \<open>n\<close> characters agree, or both strings end
  before that and are equal.
\<close>

definition strncmp_eq :: "string \<Rightarrow> string \<Rightarrow> nat \<Rightarrow> bool" where
  "strncmp_eq a b n = (take n a = take n b)"

text \<open>
  The result is the returned code and the \<^verbatim>\<open>url\<close> object, which is written in place
  (also when the function fails after it has set some fields).
\<close>

definition url_parse :: "string \<Rightarrow> url_t \<Rightarrow> int \<times> url_t" where
  "url_parse str url =
     (case strstr str ''//'' of
        None \<Rightarrow> (- 1, url)
      | Some i \<Rightarrow>
          (let n = i + 2; ptr = drop n str in
           if strncmp_eq ''dir://'' str n then (0, url\<lparr>path := ptr, host := []\<rparr>)
           else if strncmp_eq ''ssh://'' str n then
             (let str1 = ptr;
                  (url1, str2) =
                    (case str_find (CHR ''@'') str1 of
                       Some k \<Rightarrow> (url\<lparr>user := take k str1\<rparr>, drop (Suc k) str1)
                     | None \<Rightarrow> (url\<lparr>user := []\<rparr>, str1));
                  url2 =
                    (case str_find (CHR '':'') str2 of
                       Some k \<Rightarrow> url1\<lparr>host := take k str2\<rparr>
                     | None \<Rightarrow> url1\<lparr>host := [], port := []\<rparr>)
              in (case str_find (CHR ''/'') str2 of
                    None \<Rightarrow> (- 1, url2)
                  | Some k \<Rightarrow>
                      (let url3 = (if host url2 = [] then url2\<lparr>host := take k str2\<rparr>
                                   else url2\<lparr>port := take k str2\<rparr>)
                       in (0, url3\<lparr>path := drop (Suc k) str2\<rparr>))))
           else (- 1, url)))"

subsection \<open>Files\<close>

text \<open>
  The files of the message directory, by path name.  \<^verbatim>\<open>std::remove\<close> on a file deletes
  its entry.
\<close>

type_synonym files = "string \<rightharpoonup> byte list"

definition infile_name :: string where
  "infile_name = ''candidate''"


subsection \<open>\<^verbatim>\<open>dir_erase\<close>\<close>

text \<open>
  The loop over \<^verbatim>\<open>readdir\<close>; the list holds the names \<^verbatim>\<open>d_name\<close> in the order in
  which the directory stream yields them.
\<close>

fun dir_erase_loop :: "string \<Rightarrow> string list \<Rightarrow> files \<Rightarrow> files" where
  "dir_erase_loop dirname [] fs = fs"
| "dir_erase_loop dirname (d_name # rest) fs =
     (if infile_name @ ''.-1'' = d_name then dir_erase_loop dirname rest fs
      else if strncmp_eq d_name infile_name (length infile_name)
           then dir_erase_loop dirname rest (fs(dirname @ ''/'' @ d_name := None))
           else dir_erase_loop dirname rest fs)"

text \<open>
  The second argument is \<open>None\<close> when \<^verbatim>\<open>opendir\<close> fails.  \<^verbatim>\<open>closedir\<close> and the
  removals are taken to succeed.
\<close>

definition dir_erase :: "string \<Rightarrow> string list option \<Rightarrow> files \<Rightarrow> int \<times> files" where
  "dir_erase dirname dir fs =
     (case dir of None \<Rightarrow> (- 1, fs) | Some entries \<Rightarrow> (0, dir_erase_loop dirname entries fs))"

text \<open>A message directory used as a test input.\<close>

definition example_dir :: files where
  "example_dir = [''/in/candidate.-1'' \<mapsto> [1], ''/in/candidate.0'' \<mapsto> [2],
     ''/in/candidate.12'' \<mapsto> [3], ''/in/code_complete.0'' \<mapsto> [4], ''/in/notes'' \<mapsto> [5]]"

subsection \<open>\<^verbatim>\<open>read_loop\<close> and \<^verbatim>\<open>write_loop\<close>\<close>

text \<open>
  \<^verbatim>\<open>read(fd, buf, len)\<close> on the open file: it delivers the next bytes of the file, at most
  \<open>len\<close> and at most \<open>chunk\<close> at a time, and 0 at the end of the file.  The loop returns
  the bytes it has stored and the rest of the file, or \<open>None\<close> for the result \<open>-1\<close>.
  (A read interrupted by a signal is repeated and changes nothing; it is left out.)
\<close>

function read_loop :: "nat \<Rightarrow> byte list \<Rightarrow> int \<Rightarrow> (byte list \<times> byte list) option" where
  "read_loop chunk file len =
     (if len > 0 then
        (let count = min (min (nat len) (length file)) chunk in
         if count \<le> 0 then None
         else (case read_loop chunk (drop count file) (len - int count) of
                 None \<Rightarrow> None
               | Some (got, rest) \<Rightarrow> Some (take count file @ got, rest)))
      else Some ([], file))"
  by pat_completeness auto
termination
  by (relation "measure (\<lambda>(chunk, file, len). nat len)") auto

declare read_loop.simps [simp del]



subsection \<open>\<^verbatim>\<open>mesg_write\<close>\<close>

text \<open>
  \<^verbatim>\<open>ntohs(*(unsigned short *)(buf + sizeof(int)))\<close>: the two bytes at offsets 4 and 5, the
  high byte first.
\<close>

definition msglen_of :: "byte list \<Rightarrow> nat" where
  "msglen_of b = unat (b ! 4) * 256 + unat (b ! 5)"




subsection \<open>\<^verbatim>\<open>mesg_read\<close>\<close>

text \<open>\<^verbatim>\<open>ntohl(*(unsigned int *)hdr)\<close>: the first four bytes, the highest byte first.\<close>

definition be32 :: "byte list \<Rightarrow> nat" where
  "be32 b = ((unat (b ! 0) * 256 + unat (b ! 1)) * 256 + unat (b ! 2)) * 256 + unat (b ! 3)"

text \<open>
  Modelled from the spec: \<^verbatim>\<open>HARMONY_HDRLEN\<close> is defined in a header that is not part of
  the sources at hand; the envelope is a 4-byte magic number followed by a 2-byte length.
  The magic number \<^verbatim>\<open>HARMONY_MAGIC\<close> itself is an argument of \<open>mesg_read\<close>.
\<close>

definition HARMONY_HDRLEN :: nat where
  "HARMONY_HDRLEN = 6"

text \<open>\<^verbatim>\<open>memcpy\<close> of \<open>xs\<close> to offset \<open>off\<close> of a buffer that is large enough.\<close>

definition poke :: "byte list \<Rightarrow> nat \<Rightarrow> byte list \<Rightarrow> byte list" where
  "poke b off xs = take off b @ xs @ drop (off + length xs) b"

text \<open>
  What the operating system decides during \<^verbatim>\<open>mesg_read\<close>: the largest number of bytes
  one \<^verbatim>\<open>read\<close> delivers, and whether \<^verbatim>\<open>realloc\<close> and \<^verbatim>\<open>close\<close> succeed.
\<close>

record read_env =
  chunk :: nat
  realloc_ok :: bool
  rclose_ok :: bool

text \<open>
  \<open>Read_failed\<close>: \<open>mesg_read\<close> returns \<open>-1\<close> before it decodes anything.
  \<open>Read_done r n m\<close>: it took \<open>n\<close> bytes from the file, left the message \<open>m\<close>, and
  returns the value \<open>r\<close> of \<^verbatim>\<open>hmesg_deserialize\<close>.
  \<open>Read_undefined\<close>: the six header bytes are copied into a buffer of fewer than six bytes.
\<close>

datatype read_outcome = Read_failed | Read_done int nat hmesg_t | Read_undefined

text \<open>
  The file is \<open>None\<close> when \<^verbatim>\<open>open\<close> fails.  The buffer of the message is \<open>buf\<close>, its
  size \<^verbatim>\<open>buflen\<close> the length of the list.  The third argument of the second
  \<^verbatim>\<open>read_loop\<close> is \<^verbatim>\<open>msglen - sizeof(hdr)\<close> converted to \<^verbatim>\<open>int\<close>, which is negative
  when the announced length is below six.  \<^verbatim>\<open>hmesg_scrub\<close> and \<^verbatim>\<open>hmesg_deserialize\<close> are
  the argument \<open>deserialize\<close>, from the buffer to the returned code and the decoded point.
\<close>

definition mesg_read ::
  "read_env \<Rightarrow> nat \<Rightarrow> (byte list \<Rightarrow> int \<times> hpoint_t) \<Rightarrow> byte list option \<Rightarrow> hmesg_t \<Rightarrow> read_outcome" where
  "mesg_read env magic deserialize file m =
     (case file of
        None \<Rightarrow> Read_failed
      | Some bytes \<Rightarrow>
          (case read_loop (chunk env) bytes (int HARMONY_HDRLEN) of
             None \<Rightarrow> Read_failed
           | Some (hdr, rest) \<Rightarrow>
               if be32 hdr \<noteq> magic then Read_failed
               else
                 (let msglen = msglen_of hdr in
                  if length (buf m) \<le> msglen \<and> \<not> realloc_ok env then Read_failed
                  else
                    (let b0 = (if length (buf m) \<le> msglen
                               then take (msglen + 1) (buf m @ replicate (msglen + 1) 0)
                               else buf m)
                     in if length b0 < HARMONY_HDRLEN then Read_undefined
                        else
                          (case read_loop (chunk env) rest (int msglen - int HARMONY_HDRLEN) of
                             None \<Rightarrow> Read_failed
                           | Some (body, rest') \<Rightarrow>
                               (let b2 = (poke (poke b0 0 hdr) HARMONY_HDRLEN body)[msglen := 0] in
                                if \<not> rclose_ok env then Read_failed
                                else (case deserialize b2 of
                                        (r, pt) \<Rightarrow>
                                          Read_done r (length hdr + length body)
                                            (m\<lparr>buf := b2, cand := pt\<rparr>))))))))"

text \<open>Test inputs: a configuration, a message of eight bytes, and two environments.\<close>

definition example_cfg :: "string \<Rightarrow> config" where
  "example_cfg reply_host =
     \<lparr>appname = ''gemm'', slave_path = ''/cg'',
      local_url = \<lparr>path = ''/in'', host = ''alpha'', user = [], port = []\<rparr>,
      reply_url = \<lparr>path = ''/res'', host = reply_host, user = ''bob'', port = []\<rparr>,
      target_url = \<lparr>path = ''/out'', host = ''tgt'', user = [], port = []\<rparr>\<rparr>"

definition example_mesg :: hmesg_t where
  "example_mesg = \<lparr>buf = [0x12, 0x34, 0x56, 0x78, 0, 8, 0xAA, 0xBB], cand = \<lparr>idx = []\<rparr>\<rparr>"



definition example_read_env :: read_env where
  "example_read_env = \<lparr>chunk = 4, realloc_ok = True, rclose_ok = True\<rparr>"

subsection \<open>\<^verbatim>\<open>parse_slave_list\<close>\<close>

text \<open>\<^verbatim>\<open>isspace\<close> in the C locale: blank, and the control characters 9 to 13.\<close>

definition isspace :: "char \<Rightarrow> bool" where
  "isspace c \<longleftrightarrow> c \<in> set [CHR '' '', CHR 0x09, CHR 0x0A, CHR 0x0B, CHR 0x0C, CHR 0x0D]"

text \<open>
  \<^verbatim>\<open>strtol(nptr, &endptr, 0)\<close> of the C library: white space, an optional sign, then a
  number whose base follows from its prefix (\<^verbatim>\<open>0x\<close> hexadecimal, \<^verbatim>\<open>0\<close> octal, else
  decimal).  The result is the value, the number of characters up to \<^verbatim>\<open>endptr\<close>, and
  whether \<^verbatim>\<open>errno\<close> is set, which happens when the value does not fit a 64-bit
  \<^verbatim>\<open>long\<close>.  Without any digit the value is 0, \<^verbatim>\<open>endptr\<close> is \<^verbatim>\<open>nptr\<close> and \<^verbatim>\<open>errno\<close> is
  left alone.  The value of a digit follows from its character code: \<^verbatim>\<open>0\<close> to \<^verbatim>\<open>9\<close> are
  48 to 57, the letters count from ten.
\<close>

definition digit_value :: "char \<Rightarrow> nat option" where
  "digit_value c =
     (let k = (of_char c :: nat) in
      if 48 \<le> k \<and> k \<le> 57 then Some (k - 48)
      else if 97 \<le> k \<and> k \<le> 122 then Some (k - 87)
      else if 65 \<le> k \<and> k \<le> 90 then Some (k - 55)
      else None)"

definition in_base :: "nat \<Rightarrow> char \<Rightarrow> bool" where
  "in_base b c = (case digit_value c of None \<Rightarrow> False | Some d \<Rightarrow> d < b)"

definition LONG_MAX :: int where
  "LONG_MAX = 9223372036854775807"

definition hex_prefix :: "string \<Rightarrow> bool" where
  "hex_prefix s =
     (case s of
        c0 # cx # c # r \<Rightarrow> c0 = CHR ''0'' \<and> (cx = CHR ''x'' \<or> cx = CHR ''X'') \<and> in_base 16 c
      | _ \<Rightarrow> False)"

definition strtol0 :: "string \<Rightarrow> int \<times> nat \<times> bool" where
  "strtol0 s =
     (let ws = takeWhile isspace s;
          s1 = dropWhile isspace s;
          neg = (s1 \<noteq> [] \<and> hd s1 = CHR ''-'');
          sg = (if s1 \<noteq> [] \<and> (hd s1 = CHR ''-'' \<or> hd s1 = CHR ''+'') then 1 else 0);
          s2 = drop sg s1;
          base = (if hex_prefix s2 then 16 else if s2 \<noteq> [] \<and> hd s2 = CHR ''0'' then 8 else 10);
          pre = (if hex_prefix s2 then 2 else 0);
          ds = takeWhile (in_base base) (drop pre s2);
          v = foldl (\<lambda>a c. a * int base + int (the (digit_value c))) 0 ds;
          used = length ws + sg + pre + length ds
      in if ds = [] then (0, 0, False)
         else if neg then (if v > LONG_MAX + 1 then (- LONG_MAX - 1, used, True) else (- v, used, False))
         else (if v > LONG_MAX then (LONG_MAX, used, True) else (v, used, False)))"

text \<open>
  The two scanning loops \<^verbatim>\<open>while (head < tail && ...) ++head\<close>.  In the source the
  loop conditions also compare the pointer \<^verbatim>\<open>head\<close> itself with \<^verbatim>\<open>'\0'\<close>; a valid pointer
  is never null, so \<^verbatim>\<open>head == '\0' || isspace(*head)\<close> is \<^verbatim>\<open>isspace(*head)\<close> and
  \<^verbatim>\<open>head != '\0' && !isspace(*head)\<close> is \<^verbatim>\<open>!isspace(*head)\<close>.
\<close>

function scan :: "(char \<Rightarrow> bool) \<Rightarrow> string \<Rightarrow> nat \<Rightarrow> nat \<Rightarrow> nat" where
  "scan P mem head tail =
     (if head < tail \<and> P (mem ! head) then scan P mem (Suc head) tail else head)"
  by pat_completeness auto
termination
  by (relation "measure (\<lambda>(P, mem, head, tail). tail - head)") auto

declare scan.simps [simp del]

text \<open>
  One turn of the loop over the entries, up to the error check.  Pointers are offsets into
  \<open>mem\<close>, the host list with its terminating NUL and the memory after it.  The result is
  \<open>None\<close> when the error check fires, else the host (\<open>hname\<close>), the number and \<^verbatim>\<open>tail\<close>.
\<close>

definition parse_entry :: "string \<Rightarrow> nat \<Rightarrow> nat \<Rightarrow> (string \<times> int \<times> nat) option" where
  "parse_entry mem end head =
     (let tail = (case str_find (CHR '','') (take (end - head) (drop head mem)) of
                    None \<Rightarrow> end | Some k \<Rightarrow> head + k);
          head1 = scan isspace mem head tail;
          host_ptr = head1;
          head2 = scan (\<lambda>c. \<not> isspace c) mem head1 tail;
          hname = take (head2 - host_ptr) (drop host_ptr mem);
          head3 = Suc head2
      in (case strtol0 (drop head3 mem) of
            (v, used, erange) \<Rightarrow>
              (let num = (if erange then - 1 else v);
                   head4 = (if erange then tail else head3 + used);
                   head5 = scan isspace mem head4 tail
               in if hname = [] \<or> num = - 1 \<or> head5 \<noteq> tail then None
                  else Some (hname, num, tail))))"

text \<open>\<^verbatim>\<open>tail\<close> lies between \<^verbatim>\<open>head\<close> and \<^verbatim>\<open>end\<close>; the loop over the entries ends for that reason.\<close>

lemma str_find_less: "str_find c s = Some k \<Longrightarrow> k < length s"
  by (induction s arbitrary: k) (auto split: if_splits option.splits)

lemma parse_entry_tail:
  assumes "parse_entry mem end head = Some (h, num, tail)" and "head < end"
  shows "head \<le> tail \<and> tail \<le> end"
proof -
  define t where "t = (case str_find (CHR '','') (take (end - head) (drop head mem)) of
                    None \<Rightarrow> end | Some k \<Rightarrow> head + k)"
  have "tail = t"
    using assms(1) unfolding parse_entry_def t_def [symmetric]
    by (auto simp: Let_def split: prod.splits if_splits)
  moreover have "head \<le> t \<and> t \<le> end"
    using assms(2) by (auto simp: t_def split: option.splits dest!: str_find_less)
  ultimately show ?thesis by simp
qed

text \<open>
  The loop \<^verbatim>\<open>while (head < end)\<close>.  After an entry that passes the check, one slot
  \<^verbatim>\<open>host_i\<close> is pushed for every \<open>i\<close> from 1 to \<open>num\<close>, and \<^verbatim>\<open>head\<close> moves past
  \<^verbatim>\<open>tail\<close>.  When the check fires the list is emptied and the result is \<open>-1\<close>.
\<close>

function parse_loop ::
  "string \<Rightarrow> nat \<Rightarrow> nat \<Rightarrow> generator_t \<Rightarrow> generator_t list \<Rightarrow> int \<times> generator_t list" where
  "parse_loop mem end head newgen gen_list =
     (if head < end then
        (case parse_entry mem end head of
           None \<Rightarrow> (- 1, [])
         | Some (hname, num, tail) \<Rightarrow>
             parse_loop mem end (Suc tail) newgen
               (gen_list @ map (\<lambda>i. newgen\<lparr>hostname := hname @ ''_'' @ show_long i\<rparr>) [1..num]))
      else (0, gen_list))"
  by pat_completeness auto
termination
  by (relation "measure (\<lambda>(mem, end, head, newgen, gen_list). end - head)")
     (auto dest!: parse_entry_tail)

declare parse_loop.simps [simp del]

text \<open>
  \<open>hostlist\<close> is \<open>None\<close> for a null pointer.  \<open>beyond\<close> is the memory after the
  terminating NUL of the host list, which \<^verbatim>\<open>strtol\<close> reads when the last host name ends the
  string.  \<open>step0\<close> is the value of the field \<^verbatim>\<open>step\<close> of the local \<^verbatim>\<open>newgen\<close>, which the
  function never sets.  The list passed in is the global \<^verbatim>\<open>gen_list\<close>; it is emptied first.
\<close>

definition parse_slave_list ::
  "string option \<Rightarrow> string \<Rightarrow> int \<Rightarrow> generator_t list \<Rightarrow> int \<times> generator_t list" where
  "parse_slave_list hostlist beyond step0 gen_list =
     (case hostlist of
        None \<Rightarrow> (- 1, gen_list)
      | Some s \<Rightarrow>
          parse_loop (s @ CHR 0x00 # beyond) (length s) 0
            \<lparr>pid = 0, step = step0, mesg = HMESG_INITIALIZER, hostname = []\<rparr> [])"

subsection \<open>The host list grammar\<close>

text \<open>
  The grammar of the host list as the specification words it: entries
  \<^verbatim>\<open><host> <count>\<close> separated by commas, with white space around host and count.
\<close>

record entry =
  e_lead :: string
  e_host :: string
  e_gap :: string
  e_count :: nat
  e_trail :: string

definition entry_text :: "entry \<Rightarrow> string" where
  "entry_text e = e_lead e @ e_host e @ e_gap e @ digits_of (e_count e) @ e_trail e"

definition well_formed_entry :: "entry \<Rightarrow> bool" where
  "well_formed_entry e \<longleftrightarrow>
     list_all isspace (e_lead e) \<and>
     e_host e \<noteq> [] \<and>
     list_all (\<lambda>c. \<not> isspace c \<and> c \<noteq> CHR '','' \<and> c \<noteq> CHR 0x00) (e_host e) \<and>
     e_gap e \<noteq> [] \<and> list_all isspace (e_gap e) \<and>
     0 < e_count e \<and> int (e_count e) < LONG_MAX \<and>
     list_all isspace (e_trail e)"

fun host_spec :: "entry list \<Rightarrow> string" where
  "host_spec [] = []"
| "host_spec [e] = entry_text e"
| "host_spec (e # es) = entry_text e @ '','' @ host_spec es"

definition slot_names :: "entry \<Rightarrow> string list" where
  "slot_names e = map (\<lambda>i. e_host e @ ''_'' @ show_long i) [1..int (e_count e)]"

text \<open>The slots expected for an entry, built from the record \<^verbatim>\<open>newgen\<close>.\<close>

definition entry_slots :: "generator_t \<Rightarrow> entry \<Rightarrow> generator_t list" where
  "entry_slots ng e = map (\<lambda>i. ng\<lparr>hostname := e_host e @ ''_'' @ show_long i\<rparr>) [1..int (e_count e)]"

text \<open>Well-formed entries, each followed by its comma: the start of a longer host list.\<close>

definition entries_text :: "entry list \<Rightarrow> string" where
  "entries_text es = concat (map (\<lambda>e. entry_text e @ '','') es)"

text \<open>The host list \<^verbatim>\<open>alpha 2, beta 1\<close>.\<close>

definition example_entries :: "entry list" where
  "example_entries =
     [\<lparr>e_lead = [], e_host = ''alpha'', e_gap = '' '', e_count = 2, e_trail = []\<rparr>,
      \<lparr>e_lead = '' '', e_host = ''beta'', e_gap = '' '', e_count = 1, e_trail = []\<rparr>]"

subsection \<open>The dispatch loop\<close>

text \<open>
  The status that \<^verbatim>\<open>waitpid\<close> stores: the child called \<^verbatim>\<open>exit\<close> with a code, or it was
  ended by a signal.
\<close>

datatype wait_status = Exited nat | Signaled nat

fun WIFEXITED :: "wait_status \<Rightarrow> bool" where
  "WIFEXITED (Exited c) = True"
| "WIFEXITED (Signaled s) = False"

fun WEXITSTATUS :: "wait_status \<Rightarrow> nat" where
  "WEXITSTATUS (Exited c) = c mod 256"
| "WEXITSTATUS (Signaled s) = 0"

text \<open>
  \<open>slave_complete\<close>: the first slot that holds the process identifier is published and
  marked free.  The result is the returned code, the list, and the arguments of the call
  of \<open>mesg_write\<close> when there was one.  (\<^verbatim>\<open>hmesg_scrub\<close>, which releases what the message
  had decoded, is not modelled.)
\<close>

fun slave_complete :: "int \<Rightarrow> generator_t list \<Rightarrow> int \<times> generator_t list \<times> (hmesg_t \<times> int) option" where
  "slave_complete p [] = (- 1, [], None)"
| "slave_complete p (g # gs) =
     (if pid g = p then (0, g\<lparr>pid := 0\<rparr> # gs, Some (mesg g, step g))
      else (case slave_complete p gs of (rc, gs', w) \<Rightarrow> (rc, g # gs', w)))"

text \<open>The search for an available slot: the first index whose \<^verbatim>\<open>pid\<close> is 0.\<close>

fun find_free :: "generator_t list \<Rightarrow> nat option" where
  "find_free [] = None"
| "find_free (g # gs) =
     (if pid g = 0 then Some 0 else (case find_free gs of None \<Rightarrow> None | Some i \<Rightarrow> Some (Suc i)))"

text \<open>
  \<open>generator_make\<close> in the parent process: \<open>fork_ret\<close> is what \<^verbatim>\<open>fork\<close> returns there,
  the identifier of the new child or \<open>-1\<close>.  (In the child \<^verbatim>\<open>fork\<close> returns 0 and the
  child runs \<open>generator_main\<close>.)
\<close>

definition generator_make :: "int \<Rightarrow> generator_t \<Rightarrow> generator_t" where
  "generator_make fork_ret gen = (if fork_ret > 0 then gen\<lparr>pid := fork_ret\<rparr> else gen)"

text \<open>
  The global variables of the loop, and with them the children of the process that have
  been forked and not yet waited for (kept by the operating system).
\<close>

record coordinator =
  gen_list :: "generator_t list"
  timestep :: int
  num_ready :: int
  children :: "int set"

text \<open>
  What happens to the coordinator, one event for each pass:
  \<^item> \<open>Reap p st\<close>: in the idle loop, \<^verbatim>\<open>waitpid(-1, &status, WNOHANG)\<close> returns \<open>p\<close>;
  \<^item> \<open>Init cfg tail\<close>: the initialization file is there; \<open>cfg\<close> is \<open>None\<close> when
    \<open>codeserver_init\<close> fails before it reads the host list, else the host list with the
    memory after it and the stale \<^verbatim>\<open>step\<close> of \<^verbatim>\<open>newgen\<close>; \<open>tail\<close> is what happens in
    \<open>codeserver_init\<close> after a successful \<open>parse_slave_list\<close>;
  \<^item> \<open>Point m fork_ret (p, st) log_ok\<close>: the file of the current step is there; \<open>m\<close> is
    the message after \<open>mesg_read\<close>, \<open>fork_ret\<close> the result of \<^verbatim>\<open>fork\<close>, \<open>(p, st)\<close> what
    the blocking \<^verbatim>\<open>waitpid\<close> returns if it is called, and \<open>log_ok\<close> tells whether
    \<open>logger\<close> can open the log file at the end of the pass.

  After \<open>parse_slave_list\<close>, \<open>codeserver_init\<close> returns \<open>-1\<close> when the session defines no
  slave directory; then it calls \<open>logger\<close>, which ends the process with \<^verbatim>\<open>exit(1)\<close> when
  the log file cannot be opened; then it returns \<open>-1\<close> when the setup script or the reply
  fails, and 0 otherwise.
\<close>

datatype init_tail = No_slave_path | Log_unopened | Setup_fails | Reply_fails | Completes

datatype event =
    Reap int wait_status
  | Init "(string \<times> string \<times> int) option" init_tail
  | Point hmesg_t int "int \<times> wait_status" bool

datatype outcome = Running coordinator | Exit int | Abort

text \<open>
  One pass of the loop.  \<open>Exit 1\<close> is \<^verbatim>\<open>exit(1)\<close>, after a failed child or in \<open>logger\<close>;
  \<open>Abort\<close> is the failed assertion when no slot is free.
\<close>

fun main_step :: "coordinator \<Rightarrow> event \<Rightarrow> outcome" where
  "main_step w (Reap p st) =
     (case slave_complete p (gen_list w) of
        (rc, gl, pub) \<Rightarrow>
          Running (w\<lparr>gen_list := gl,
                     num_ready := (if rc = 0 then num_ready w + 1 else num_ready w),
                     children := children w - {p}\<rparr>))"
| "main_step w (Init cfg tail) =
     (case cfg of
        None \<Rightarrow> Running w
      | Some (hostlist, beyond, step0) \<Rightarrow>
          (case parse_slave_list (Some hostlist) beyond step0 (gen_list w) of
             (rc, gl) \<Rightarrow>
               if rc < 0 then Running (w\<lparr>gen_list := gl\<rparr>)
               else (case tail of
                       No_slave_path \<Rightarrow> Running (w\<lparr>gen_list := gl\<rparr>)
                     | Log_unopened \<Rightarrow> Exit 1
                     | Setup_fails \<Rightarrow> Running (w\<lparr>gen_list := gl\<rparr>)
                     | Reply_fails \<Rightarrow> Running (w\<lparr>gen_list := gl\<rparr>)
                     | Completes \<Rightarrow>
                         Running (w\<lparr>gen_list := gl, timestep := 0, num_ready := int (length gl)\<rparr>))))"
| "main_step w (Point m fork_ret wait_ret log_ok) =
     (case find_free (gen_list w) of
        None \<Rightarrow> Abort
      | Some i \<Rightarrow>
          (let gen = generator_make fork_ret ((gen_list w ! i)\<lparr>mesg := m, step := timestep w\<rparr>);
               gl1 = (gen_list w)[i := gen];
               kids1 = (if fork_ret > 0 then insert fork_ret (children w) else children w);
               nr1 = num_ready w - 1
           in if nr1 = 0 then
                (case wait_ret of
                   (p, status) \<Rightarrow>
                     if \<not> WIFEXITED status \<or> WEXITSTATUS status \<noteq> 0 then Exit 1
                     else (case slave_complete p gl1 of
                             (rc, gl2, pub) \<Rightarrow>
                               if \<not> log_ok then Exit 1
                               else Running \<lparr>gen_list = gl2, timestep = timestep w + 1,
                                             num_ready = (if rc = 0 then nr1 + 1 else nr1),
                                             children = kids1 - {p}\<rparr>))
              else if \<not> log_ok then Exit 1
              else Running \<lparr>gen_list = gl1, timestep = timestep w + 1, num_ready = nr1,
                            children = kids1\<rparr>))"









section \<open>Properties\<close>

subsection \<open>Shared lemmas\<close>

lemma values_of_loop_bad:
  "\<exists>k < length xs. type (iv (i + k) (xs ! k)) \<noteq> HVAL_INT \<Longrightarrow> values_of_loop iv xs i acc = []"
proof (induction xs arbitrary: i acc)
  case Nil
  then show ?case by simp
next
  case (Cons x xs)
  show ?case
  proof (cases "type (iv i x) = HVAL_INT")
    case False
    then show ?thesis by simp
  next
    case True
    from Cons.prems obtain k
      where k: "k < length (x # xs)" "type (iv (i + k) ((x # xs) ! k)) \<noteq> HVAL_INT"
      by blast
    with True obtain k' where "k = Suc k'" by (cases k) auto
    with k have "\<exists>k < length xs. type (iv (Suc i + k) (xs ! k)) \<noteq> HVAL_INT" by auto
    from Cons.IH [OF this] True show ?thesis by simp
  qed
qed

lemma values_of_loop_all_int:
  "\<forall>k < length xs. type (iv (i + k) (xs ! k)) = HVAL_INT \<Longrightarrow>
   values_of_loop iv xs i acc = acc @ map (\<lambda>k. value_i (iv (i + k) (xs ! k))) [0..<length xs]"
proof (induction xs arbitrary: i acc)
  case Nil
  then show ?case by simp
next
  case (Cons x xs)
  have hd: "type (iv i x) = HVAL_INT" using Cons.prems by force
  have "\<forall>k < length xs. type (iv (Suc i + k) (xs ! k)) = HVAL_INT"
    using Cons.prems by force
  from Cons.IH [OF this] hd show ?case
    by (simp add: upt_conv_Cons map_Suc_upt [symmetric] del: upt_Suc)
qed

lemma print_values_concat: "print_values vs = concat (map (\<lambda>v. show_long v @ '' '') vs)"
  by (induction vs) simp_all

lemma str_find_takeWhile: "substr0 s (str_find c s) = takeWhile (\<lambda>x. x \<noteq> c) s"
  by (induction s) (auto simp: substr0_def split: option.splits)

lemma generator_name_slot:
  assumes h: "CHR ''_'' \<notin> set h"
  shows "generator_name (h @ CHR ''_'' # k) = h"
proof -
  have "generator_name (h @ CHR ''_'' # k) = takeWhile (\<lambda>x. x \<noteq> CHR ''_'') (h @ CHR ''_'' # k)"
    by (simp only: generator_name_def str_find_takeWhile)
  also from h have "\<dots> = h"
    by (induction h) auto
  finally show ?thesis .
qed

lemma show_long_examples:
  "show_long 1 = ''1''" "show_long 2 = ''2''" "show_long 3 = ''3''" "show_long (-12) = ''-12''"
  by (simp_all add: show_long_def digits_of.simps digit_char_def)

subsection \<open>Value extraction\<close>

text \<open>
  C9 (as the code has it).  If the point holds at least one value whose type is not integer,
  \<^verbatim>\<open>values_of\<close> returns the empty vector, whatever integer values came before it.  A
  worker that can open its log file then writes the line with no value to the log and runs
  the external command with an empty value array: two double quotes in the local form, two
  escaped double quotes in the remote form.
\<close>

theorem values_of_non_int_empty:
  assumes "k < length (idx (cand (mesg gen)))"
    and "type (index_value k (idx (cand (mesg gen)) ! k)) \<noteq> HVAL_INT"
  shows "values_of index_value (cand (mesg gen)) = [] \<and>
         (let cmd =
            (if generator_name (hostname gen) = host (local_url cfg)
             then ''exec '' @ slave_path cfg @ ''/'' @ hostname gen @ ''_'' @ appname cfg
                  @ ''/chill_script.'' @ appname cfg @ ''.sh ''
                  @ [CHR 0x22, CHR 0x22] @ '' ''
                  @ generator_name (hostname gen) @ '' ''
                  @ slave_path cfg @ ''/'' @ hostname gen @ ''_'' @ appname cfg @ '' ''
                  @ host (target_url cfg) @ '' '' @ path (target_url cfg)
             else ''ssh '' @ generator_name (hostname gen) @ '' ''
                  @ ''exec '' @ slave_path cfg @ ''/'' @ hostname gen @ ''_'' @ appname cfg
                  @ ''/chill_script.'' @ appname cfg @ ''.sh ''
                  @ [CHR 0x5C, CHR 0x22, CHR 0x5C, CHR 0x22] @ '' ''
                  @ generator_name (hostname gen) @ '' ''
                  @ slave_path cfg @ ''/'' @ hostname gen @ ''_'' @ appname cfg @ '' ''
                  @ host (target_url cfg) @ '' '' @ path (target_url cfg))
          in generator_main index_value (Some old_log) sys cfg gen =
               (Some (cmd, sys cmd), 0, Some (old_log @ hostname gen @ '':  '' @ [CHR 0x0A])))"
proof -
  from assms have "\<exists>k < length (idx (cand (mesg gen))).
      type (index_value (0 + k) (idx (cand (mesg gen)) ! k)) \<noteq> HVAL_INT"
    by auto
  then have "values_of index_value (cand (mesg gen)) = []"
    unfolding values_of_def by (rule values_of_loop_bad)
  then show ?thesis
    by (simp add: generator_main_def logger_def generator_command_def vector_to_string_def
        vector_to_bash_array_local_def vector_to_bash_array_remote_def Let_def)
qed

theorem values_of_non_int_empty_witness:
  "values_of (\<lambda>i x. \<lparr>type = (if i = 1 then HVAL_REAL else HVAL_INT), value_i = x\<rparr>)
     \<lparr>idx = [5, 7, 9]\<rparr> = [] \<and>
   generator_main (\<lambda>i x. \<lparr>type = (if i = 1 then HVAL_REAL else HVAL_INT), value_i = x\<rparr>)
     (Some ''log'') (\<lambda>cmd. 0) (example_cfg [])
     \<lparr>pid = 0, step = 0, mesg = \<lparr>buf = [], cand = \<lparr>idx = [5, 7, 9]\<rparr>\<rparr>, hostname = ''alpha_1''\<rparr> =
     (Some (''exec /cg/alpha_1_gemm/chill_script.gemm.sh '' @ [CHR 0x22, CHR 0x22]
              @ '' alpha /cg/alpha_1_gemm tgt /out'', 0),
      0, Some (''logalpha_1:  '' @ [CHR 0x0A])) \<and>
   generator_main (\<lambda>i x. \<lparr>type = (if i = 1 then HVAL_REAL else HVAL_INT), value_i = x\<rparr>)
     (Some ''log'') (\<lambda>cmd. 0) (example_cfg [])
     \<lparr>pid = 0, step = 0, mesg = \<lparr>buf = [], cand = \<lparr>idx = [5, 7, 9]\<rparr>\<rparr>, hostname = ''beta_2''\<rparr> =
     (Some (''ssh beta exec /cg/beta_2_gemm/chill_script.gemm.sh ''
              @ [CHR 0x5C, CHR 0x22, CHR 0x5C, CHR 0x22] @ '' beta /cg/beta_2_gemm tgt /out'', 0),
      0, Some (''logbeta_2:  '' @ [CHR 0x0A]))"
  using values_of_non_int_empty [of 1
      "\<lparr>pid = 0, step = 0, mesg = \<lparr>buf = [], cand = \<lparr>idx = [5, 7, 9]\<rparr>\<rparr>, hostname = ''alpha_1''\<rparr>"
      "\<lambda>i x. \<lparr>type = (if i = 1 then HVAL_REAL else HVAL_INT), value_i = x\<rparr>"
      "example_cfg []" "''log''" "\<lambda>cmd. 0"]
    values_of_non_int_empty [of 1
      "\<lparr>pid = 0, step = 0, mesg = \<lparr>buf = [], cand = \<lparr>idx = [5, 7, 9]\<rparr>\<rparr>, hostname = ''beta_2''\<rparr>"
      "\<lambda>i x. \<lparr>type = (if i = 1 then HVAL_REAL else HVAL_INT), value_i = x\<rparr>"
      "example_cfg []" "''log''" "\<lambda>cmd. 0"]
  by (simp add: example_cfg_def generator_name_def substr0_def Let_def)

text \<open>
  The claim has the command run whenever the values are dropped.  The worker writes to its
  log before it builds the command, and a worker that cannot open the log ends there with
  code 1: no command is run.
\<close>

theorem values_of_non_int_log_failure:
  "values_of (\<lambda>i x. \<lparr>type = (if i = 1 then HVAL_REAL else HVAL_INT), value_i = x\<rparr>)
     \<lparr>idx = [5, 7, 9]\<rparr> = [] \<and>
   generator_main (\<lambda>i x. \<lparr>type = (if i = 1 then HVAL_REAL else HVAL_INT), value_i = x\<rparr>)
     None (\<lambda>cmd. 0) (example_cfg [])
     \<lparr>pid = 0, step = 0, mesg = \<lparr>buf = [], cand = \<lparr>idx = [5, 7, 9]\<rparr>\<rparr>, hostname = ''alpha_1''\<rparr> =
     (None, 1, None)"
  by (simp add: generator_main_def logger_def values_of_def)

subsection \<open>Local and remote command forms\<close>

text \<open>
  C8 (as the code has it).  The logical host name of a slot is the part of its name before
  the first underscore; for a slot name \<open>h_k\<close> built from a host name \<open>h\<close> without
  underscore it is \<open>h\<close>.  The command is the one that a worker runs once it has written
  to its log file.  If the logical host name equals the host of the local URL, the command is the local
  form: no \<^verbatim>\<open>ssh\<close> prefix, and the values between plain double quotes.  Otherwise the
  command is the remote form: it starts with \<^verbatim>\<open>ssh\<close> and the logical host name, and the
  values stand between backslash-escaped double quotes.
\<close>

theorem generator_main_routing:
  "(generator_name (hostname gen) = host (local_url cfg) \<longrightarrow>
      map_option fst (fst (generator_main index_value (Some old_log) sys cfg gen)) = Some (
        ''exec '' @ slave_path cfg @ ''/'' @ hostname gen @ ''_'' @ appname cfg
        @ ''/chill_script.'' @ appname cfg @ ''.sh ''
        @ [CHR 0x22]
        @ concat (map (\<lambda>v. show_long v @ '' '') (values_of index_value (cand (mesg gen))))
        @ [CHR 0x22] @ '' ''
        @ generator_name (hostname gen) @ '' ''
        @ slave_path cfg @ ''/'' @ hostname gen @ ''_'' @ appname cfg @ '' ''
        @ host (target_url cfg) @ '' '' @ path (target_url cfg))) \<and>
   (generator_name (hostname gen) \<noteq> host (local_url cfg) \<longrightarrow>
      map_option fst (fst (generator_main index_value (Some old_log) sys cfg gen)) = Some (
        ''ssh '' @ generator_name (hostname gen) @ '' ''
        @ ''exec '' @ slave_path cfg @ ''/'' @ hostname gen @ ''_'' @ appname cfg
        @ ''/chill_script.'' @ appname cfg @ ''.sh ''
        @ [CHR 0x5C, CHR 0x22]
        @ concat (map (\<lambda>v. show_long v @ '' '') (values_of index_value (cand (mesg gen))))
        @ [CHR 0x5C, CHR 0x22] @ '' ''
        @ generator_name (hostname gen) @ '' ''
        @ slave_path cfg @ ''/'' @ hostname gen @ ''_'' @ appname cfg @ '' ''
        @ host (target_url cfg) @ '' '' @ path (target_url cfg))) \<and>
   (CHR ''_'' \<notin> set h \<longrightarrow> generator_name (h @ ''_'' @ show_long k) = h)"
  by (simp add: generator_main_def logger_def generator_command_def Let_def print_values_concat
      vector_to_bash_array_local_def vector_to_bash_array_remote_def generator_name_slot)

theorem generator_main_routing_witness:
  "map_option fst (fst (generator_main (\<lambda>i x. \<lparr>type = HVAL_INT, value_i = x\<rparr>) (Some ''log'') (\<lambda>c. 0)
      \<lparr>appname = ''gemm'', slave_path = ''/cg'',
        local_url = \<lparr>path = ''/in'', host = ''alpha'', user = '''', port = ''''\<rparr>,
        reply_url = \<lparr>path = '''', host = '''', user = '''', port = ''''\<rparr>,
        target_url = \<lparr>path = ''/out'', host = ''tgt'', user = '''', port = ''''\<rparr>\<rparr>
      \<lparr>pid = 0, step = 0, mesg = \<lparr>buf = [], cand = \<lparr>idx = [3, -12]\<rparr>\<rparr>, hostname = ''alpha_1''\<rparr>))
   = Some (''exec /cg/alpha_1_gemm/chill_script.gemm.sh '' @ [CHR 0x22] @ ''3 -12 '' @ [CHR 0x22]
     @ '' alpha /cg/alpha_1_gemm tgt /out'') \<and>
   map_option fst (fst (generator_main (\<lambda>i x. \<lparr>type = HVAL_INT, value_i = x\<rparr>) (Some ''log'') (\<lambda>c. 0)
      \<lparr>appname = ''gemm'', slave_path = ''/cg'',
        local_url = \<lparr>path = ''/in'', host = ''alpha'', user = '''', port = ''''\<rparr>,
        reply_url = \<lparr>path = '''', host = '''', user = '''', port = ''''\<rparr>,
        target_url = \<lparr>path = ''/out'', host = ''tgt'', user = '''', port = ''''\<rparr>\<rparr>
      \<lparr>pid = 0, step = 0, mesg = \<lparr>buf = [], cand = \<lparr>idx = [3, -12]\<rparr>\<rparr>, hostname = ''beta_1''\<rparr>))
   = Some (''ssh beta exec /cg/beta_1_gemm/chill_script.gemm.sh '' @ [CHR 0x5C, CHR 0x22] @ ''3 -12 ''
     @ [CHR 0x5C, CHR 0x22] @ '' beta /cg/beta_1_gemm tgt /out'') \<and>
   generator_name (''alpha'' @ ''_'' @ show_long 1) = ''alpha''"
  using generator_main_routing [of
      "\<lparr>pid = 0, step = 0, mesg = \<lparr>buf = [], cand = \<lparr>idx = [3, -12]\<rparr>\<rparr>, hostname = ''alpha_1''\<rparr>"
      "\<lparr>appname = ''gemm'', slave_path = ''/cg'',
        local_url = \<lparr>path = ''/in'', host = ''alpha'', user = '''', port = ''''\<rparr>,
        reply_url = \<lparr>path = '''', host = '''', user = '''', port = ''''\<rparr>,
        target_url = \<lparr>path = ''/out'', host = ''tgt'', user = '''', port = ''''\<rparr>\<rparr>"
      "\<lambda>i x. \<lparr>type = HVAL_INT, value_i = x\<rparr>" "''log''" "\<lambda>c. 0" "''alpha''" 1]
    generator_main_routing [of
      "\<lparr>pid = 0, step = 0, mesg = \<lparr>buf = [], cand = \<lparr>idx = [3, -12]\<rparr>\<rparr>, hostname = ''beta_1''\<rparr>"
      "\<lparr>appname = ''gemm'', slave_path = ''/cg'',
        local_url = \<lparr>path = ''/in'', host = ''alpha'', user = '''', port = ''''\<rparr>,
        reply_url = \<lparr>path = '''', host = '''', user = '''', port = ''''\<rparr>,
        target_url = \<lparr>path = ''/out'', host = ''tgt'', user = '''', port = ''''\<rparr>\<rparr>"
      "\<lambda>i x. \<lparr>type = HVAL_INT, value_i = x\<rparr>" "''log''" "\<lambda>c. 0" "''alpha''" 1]
  by (simp add: generator_name_def substr0_def values_of_def show_long_examples)

text \<open>
  The claim takes the part of the slot name before the disambiguating suffix.  The slot
  \<^verbatim>\<open>my_host_1\<close> of the host \<^verbatim>\<open>my_host\<close> is cut at its first underscore: with the local
  host \<^verbatim>\<open>my_host\<close> the worker still builds the remote form, for the host \<^verbatim>\<open>my\<close>.
\<close>

theorem generator_main_splits_at_first_underscore:
  "hostname \<lparr>pid = 0, step = 0, mesg = example_mesg, hostname = ''my_host_1''\<rparr> =
     ''my_host'' @ ''_'' @ show_long 1 \<and>
   host (local_url ((example_cfg [])\<lparr>local_url := \<lparr>path = ''/in'', host = ''my_host'', user = [], port = []\<rparr>\<rparr>))
     = ''my_host'' \<and>
   map_option fst (fst (generator_main (\<lambda>i x. \<lparr>type = HVAL_INT, value_i = x\<rparr>) (Some ''log'') (\<lambda>cmd. 0)
         ((example_cfg [])\<lparr>local_url := \<lparr>path = ''/in'', host = ''my_host'', user = [], port = []\<rparr>\<rparr>)
         \<lparr>pid = 0, step = 0, mesg = example_mesg, hostname = ''my_host_1''\<rparr>)) =
     Some (''ssh my exec /cg/my_host_1_gemm/chill_script.gemm.sh '' @ [CHR 0x5C, CHR 0x22]
       @ [CHR 0x5C, CHR 0x22] @ '' my /cg/my_host_1_gemm tgt /out'')"
  by (simp add: generator_main_def logger_def generator_command_def Let_def example_cfg_def example_mesg_def
      generator_name_def substr0_def values_of_def vector_to_bash_array_remote_def
      show_long_examples)

subsection \<open>Endpoint descriptors\<close>

text \<open>
  C4. The claim is that an \<^verbatim>\<open>ssh\<close> URL with a port yields the port substring alone in the
  port field.  The code finds the colon but does not move the start of the scan past it, so
  the port field receives everything from the start of the host up to the path separator:
  for \<^verbatim>\<open>ssh://user@host:22/path\<close> the port is \<^verbatim>\<open>host:22\<close>.
\<close>

theorem url_parse_port_includes_host:
  "url_parse ''ssh://user@host:22/path'' \<lparr>path = [], host = [], user = [], port = []\<rparr> =
     (0, \<lparr>path = ''path'', host = ''host'', user = ''user'', port = ''host:22''\<rparr>)"
  by (simp add: url_parse_def strncmp_eq_def)

text \<open>
  The other parts of the grammar behave as described: a \<^verbatim>\<open>dir\<close> URL yields its path and
  an empty host, \<^verbatim>\<open>tcp\<close> is rejected, and an \<^verbatim>\<open>ssh\<close> URL without a port yields user,
  host and path.
\<close>

lemma strstr_dir: "strstr (''dir://'' @ p) ''//'' = Some 4"
  by simp

lemma url_parse_dir: "url_parse (''dir://'' @ p) url = (0, url\<lparr>path := p, host := []\<rparr>)"
  by (simp add: url_parse_def strncmp_eq_def)

lemma url_parse_tcp: "url_parse (''tcp://'' @ p) url = (- 1, url)"
  by (simp add: url_parse_def strncmp_eq_def)

lemma str_find_None: "c \<notin> set s \<Longrightarrow> str_find c s = None"
  by (induction s) auto

lemma str_find_first: "c \<notin> set s \<Longrightarrow> str_find c (s @ c # t) = Some (length s)"
  by (induction s) auto

lemma url_parse_ssh_no_port:
  assumes "CHR ''@'' \<notin> set u" "CHR ''@'' \<notin> set h" "CHR ''@'' \<notin> set p"
    "CHR '':'' \<notin> set h" "CHR '':'' \<notin> set p" "CHR ''/'' \<notin> set h" "h \<noteq> []"
  shows "url_parse (''ssh://'' @ u @ ''@'' @ h @ ''/'' @ p) url =
           (0, \<lparr>path = p, host = h, user = u, port = []\<rparr>)"
proof -
  have 1: "str_find (CHR ''@'') (u @ CHR ''@'' # h @ CHR ''/'' # p) = Some (length u)"
    using assms by (simp add: str_find_first)
  have 2: "str_find (CHR '':'') (h @ CHR ''/'' # p) = None"
    using assms by (simp add: str_find_None)
  have 3: "str_find (CHR ''/'') (h @ CHR ''/'' # p) = Some (length h)"
    using assms by (simp add: str_find_first)
  show ?thesis
    by (simp add: url_parse_def strncmp_eq_def 1 2 3 Let_def)
qed

subsection \<open>Clearing the message directory\<close>

lemma strncmp_eq_prefix: "strncmp_eq s p (length p) \<longleftrightarrow> (\<exists>r. s = p @ r)"
proof
  assume "strncmp_eq s p (length p)"
  then have "take (length p) s = p" by (simp add: strncmp_eq_def)
  then have "s = p @ drop (length p) s" by (metis append_take_drop_id)
  then show "\<exists>r. s = p @ r" ..
next
  assume "\<exists>r. s = p @ r"
  then show "strncmp_eq s p (length p)" by (auto simp: strncmp_eq_def)
qed

lemma dir_erase_loop_step:
  "dir_erase_loop dirname (d # rest) fs =
     dir_erase_loop dirname rest
       (if (\<exists>r. d = infile_name @ r) \<and> d \<noteq> infile_name @ ''.-1''
        then fs(dirname @ ''/'' @ d := None) else fs)"
  by (simp add: strncmp_eq_prefix)

lemma dir_erase_loop_apply:
  "dir_erase_loop dirname entries fs p =
     (if \<exists>n \<in> set entries. p = dirname @ ''/'' @ n \<and> (\<exists>r. n = infile_name @ r)
                \<and> n \<noteq> infile_name @ ''.-1''
      then None else fs p)"
proof -
  define E where "E = (\<lambda>n. (\<exists>r. n = infile_name @ r) \<and> n \<noteq> infile_name @ ''.-1'')"
  have step: "dir_erase_loop dirname (d # rest) fs =
      dir_erase_loop dirname rest (if E d then fs(dirname @ ''/'' @ d := None) else fs)"
    for d rest fs
    unfolding E_def by (rule dir_erase_loop_step)
  have "dir_erase_loop dirname entries fs p =
      (if \<exists>n \<in> set entries. p = dirname @ ''/'' @ n \<and> E n then None else fs p)"
  proof (induction entries arbitrary: fs)
    case Nil
    show ?case by simp
  next
    case (Cons d rest)
    show ?case
      unfolding step Cons.IH by auto
  qed
  then show ?thesis
    unfolding E_def by simp
qed

text \<open>
  C10. \<^verbatim>\<open>dir_erase\<close> removes exactly the entries of the directory whose names begin with
  \<^verbatim>\<open>candidate\<close>, except \<^verbatim>\<open>candidate.-1\<close>; every other file, the result files
  \<^verbatim>\<open>code_complete.*\<close> among them, is left as it was.
\<close>

theorem dir_erase_exact:
  "dir_erase dirname (Some entries) fs =
     (0, \<lambda>p. if \<exists>n \<in> set entries. p = dirname @ ''/'' @ n \<and> (\<exists>r. n = ''candidate'' @ r)
                   \<and> n \<noteq> ''candidate.-1''
              then None else fs p)"
  unfolding dir_erase_def option.case fun_eq_iff prod.inject
  by (simp only: dir_erase_loop_apply) (simp add: infile_name_def)

theorem dir_erase_exact_witness:
  "fst (dir_erase ''/in'' (Some [''.'', ''..'', ''candidate.-1'', ''candidate.0'', ''candidate.12'',
          ''code_complete.0'', ''notes'']) example_dir) = 0 \<and>
   snd (dir_erase ''/in'' (Some [''.'', ''..'', ''candidate.-1'', ''candidate.0'', ''candidate.12'',
          ''code_complete.0'', ''notes'']) example_dir) ''/in/candidate.0'' = None \<and>
   snd (dir_erase ''/in'' (Some [''.'', ''..'', ''candidate.-1'', ''candidate.0'', ''candidate.12'',
          ''code_complete.0'', ''notes'']) example_dir) ''/in/candidate.12'' = None \<and>
   snd (dir_erase ''/in'' (Some [''.'', ''..'', ''candidate.-1'', ''candidate.0'', ''candidate.12'',
          ''code_complete.0'', ''notes'']) example_dir) ''/in/candidate.-1'' = Some [1] \<and>
   snd (dir_erase ''/in'' (Some [''.'', ''..'', ''candidate.-1'', ''candidate.0'', ''candidate.12'',
          ''code_complete.0'', ''notes'']) example_dir) ''/in/code_complete.0'' = Some [4] \<and>
   snd (dir_erase ''/in'' (Some [''.'', ''..'', ''candidate.-1'', ''candidate.0'', ''candidate.12'',
          ''code_complete.0'', ''notes'']) example_dir) ''/in/notes'' = Some [5]"
  using dir_erase_exact [of "''/in''" "[''.'', ''..'', ''candidate.-1'', ''candidate.0'', ''candidate.12'',
          ''code_complete.0'', ''notes'']" example_dir]
  by (simp add: example_dir_def)

subsection \<open>Publishing a result\<close>










subsection \<open>Reading a message\<close>

lemma read_loop_eq:
  "read_loop c f len =
     (if len \<le> 0 then Some ([], f)
      else if c = 0 \<or> length f < nat len then None
      else Some (take (nat len) f, drop (nat len) f))"
proof (induction c f len rule: read_loop.induct)
  case (1 c f len)
  show ?case
  proof (cases "len > 0")
    case False
    then show ?thesis by (subst read_loop.simps) simp
  next
    case pos: True
    define count where "count = min (min (nat len) (length f)) c"
    show ?thesis
    proof (cases "count = 0")
      case True
      then have "c = 0 \<or> length f < nat len"
        using pos by (auto simp: count_def min_def split: if_splits)
      with True pos show ?thesis
        by (subst read_loop.simps) (simp add: count_def [symmetric] Let_def)
    next
      case False
      then have c: "c \<noteq> 0" "0 < count" "count \<le> nat len" "count \<le> length f"
        by (auto simp: count_def)
      have IH: "read_loop c (drop count f) (len - int count) =
          (if len - int count \<le> 0 then Some ([], drop count f)
           else if c = 0 \<or> length (drop count f) < nat (len - int count) then None
           else Some (take (nat (len - int count)) (drop count f),
                      drop (nat (len - int count)) (drop count f)))"
        using "1.IH" [OF pos count_def] False by simp
      have unfold: "read_loop c f len =
          (case read_loop c (drop count f) (len - int count) of
             None \<Rightarrow> None | Some (got, rest) \<Rightarrow> Some (take count f @ got, rest))"
        using pos False by (subst read_loop.simps) (simp add: count_def [symmetric] Let_def)
      show ?thesis
      proof (cases "len - int count \<le> 0")
        case True
        with c have "count = nat len" by simp
        with True pos c show ?thesis
          unfolding unfold IH by simp
      next
        case more: False
        have n: "nat len = count + nat (len - int count)"
          using more c by simp
        show ?thesis
        proof (cases "length f < nat len")
          case True
          then have "length (drop count f) < nat (len - int count)"
            using n c by simp
          with True pos more show ?thesis
            unfolding unfold IH by simp
        next
          case False
          then have "\<not> length (drop count f) < nat (len - int count)"
            using n c by simp
          moreover have "take count f @ take (nat (len - int count)) (drop count f)
              = take (nat len) f"
            by (subst n) (simp add: take_add)
          moreover have "drop (nat (len - int count)) (drop count f) = drop (nat len) f"
            by (subst n) (simp add: add.commute)
          ultimately show ?thesis
            using False pos more c unfolding unfold IH by simp
        qed
      qed
    qed
  qed
qed

lemma read_loop_short: "length f < nat len \<Longrightarrow> read_loop c f len = None"
  by (simp add: read_loop_eq)

lemma read_loop_enough:
  "0 < c \<Longrightarrow> 0 \<le> len \<Longrightarrow> nat len \<le> length f \<Longrightarrow>
   read_loop c f len = Some (take (nat len) f, drop (nat len) f)"
  by (simp add: read_loop_eq)

lemma be32_take: "4 \<le> n \<Longrightarrow> be32 (take n bytes) = be32 bytes"
  by (simp add: be32_def)

lemma msglen_of_take: "6 \<le> n \<Longrightarrow> msglen_of (take n bytes) = msglen_of bytes"
  by (simp add: msglen_of_def)

lemma mesg_read_header_short:
  "length bytes < 6 \<Longrightarrow> mesg_read env magic deserialize (Some bytes) m = Read_failed"
  by (simp add: mesg_read_def HARMONY_HDRLEN_def read_loop_short)

lemma mesg_read_bad_magic:
  "be32 bytes \<noteq> magic \<Longrightarrow> mesg_read env magic deserialize (Some bytes) m = Read_failed"
  by (simp add: mesg_read_def HARMONY_HDRLEN_def read_loop_eq be32_take)

lemma mesg_read_truncated:
  assumes "6 \<le> msglen_of bytes" "length bytes < msglen_of bytes"
  shows "mesg_read env magic deserialize (Some bytes) m = Read_failed"
proof (cases "read_loop (chunk env) bytes 6")
  case None
  then show ?thesis by (simp add: mesg_read_def HARMONY_HDRLEN_def)
next
  case (Some a)
  then have a: "6 \<le> length bytes" "a = (take 6 bytes, drop 6 bytes)"
    by (auto simp: read_loop_eq split: if_splits)
  have "length bytes - 6 < nat (int (msglen_of bytes) - 6)" "\<not> int (msglen_of bytes) - 6 \<le> 0"
    using assms a by linarith+
  then have "read_loop (chunk env) (drop 6 bytes) (int (msglen_of bytes) - 6) = None"
    by (simp add: read_loop_eq)
  with Some a assms(1) show ?thesis
    by (simp add: mesg_read_def HARMONY_HDRLEN_def msglen_of_take Let_def)
qed

lemma mesg_read_whole:
  assumes env: "0 < chunk env" "realloc_ok env" "rclose_ok env"
    and magic: "be32 bytes = magic"
    and len: "6 \<le> msglen_of bytes" "msglen_of bytes \<le> length bytes"
  shows "\<exists>r m'. mesg_read env magic deserialize (Some bytes) m = Read_done r (msglen_of bytes) m' \<and>
           take (msglen_of bytes) (buf m') = take (msglen_of bytes) bytes"
proof -
  define L where "L = msglen_of bytes"
  define b0 where "b0 = (if length (buf m) \<le> L then take (L + 1) (buf m @ replicate (L + 1) 0) else buf m)"
  define b2 where "b2 = (poke (poke b0 0 (take 6 bytes)) 6 (take (L - 6) (drop 6 bytes)))[L := 0]"
  have L: "6 \<le> L" "L \<le> length bytes" using len by (simp_all add: L_def)
  have hdr: "read_loop (chunk env) bytes 6 = Some (take 6 bytes, drop 6 bytes)"
    using env L by (simp add: read_loop_eq)
  have "nat (int L - 6) = L - 6" "\<not> length bytes - 6 < L - 6"
    using L by linarith+
  then have body: "read_loop (chunk env) (drop 6 bytes) (int L - 6) =
      Some (take (L - 6) (drop 6 bytes), drop (L - 6) (drop 6 bytes))"
    using env by (simp add: read_loop_eq)
  have b0: "L < length b0" by (simp add: b0_def)
  obtain r pt where d: "deserialize b2 = (r, pt)" by (cases "deserialize b2")
  have res: "mesg_read env magic deserialize (Some bytes) m =
      Read_done r L (m\<lparr>buf := b2, cand := pt\<rparr>)"
    using env magic L b0 d
    by (simp add: mesg_read_def HARMONY_HDRLEN_def hdr be32_take msglen_of_take
        L_def [symmetric] b0_def [symmetric] body b2_def [symmetric] Let_def)
  have "take L b2 = take 6 bytes @ take (L - 6) (drop 6 bytes)"
    using L b0 by (simp add: b2_def poke_def)
  also have "\<dots> = take L bytes"
    using L by (metis add_diff_inverse_nat not_less take_add)
  finally have "take L (buf (m\<lparr>buf := b2, cand := pt\<rparr>)) = take L bytes" by simp
  with res show ?thesis
    unfolding L_def by blast
qed

text \<open>
  C6 (as the code has it).  \<open>mesg_read\<close> fails when the file holds fewer than the six
  header bytes, when the first four bytes are not the magic number, and when the announced
  length is at least six and the file holds fewer bytes than announced.  When the magic
  number matches and the announced length \<open>L\<close> is at least six and available, it takes
  exactly \<open>L\<close> bytes from the file and the buffer holds them.
\<close>

theorem mesg_read_envelope:
  "(length bytes < 6 \<longrightarrow> mesg_read env magic deserialize (Some bytes) m = Read_failed) \<and>
   (be32 bytes \<noteq> magic \<longrightarrow> mesg_read env magic deserialize (Some bytes) m = Read_failed) \<and>
   (6 \<le> msglen_of bytes \<and> length bytes < msglen_of bytes \<longrightarrow>
      mesg_read env magic deserialize (Some bytes) m = Read_failed) \<and>
   (0 < chunk env \<and> realloc_ok env \<and> rclose_ok env \<and> be32 bytes = magic \<and>
    6 \<le> msglen_of bytes \<and> msglen_of bytes \<le> length bytes \<longrightarrow>
      (\<exists>r m'. mesg_read env magic deserialize (Some bytes) m = Read_done r (msglen_of bytes) m' \<and>
              take (msglen_of bytes) (buf m') = take (msglen_of bytes) bytes))"
  using mesg_read_header_short [of bytes env magic deserialize m]
    mesg_read_bad_magic [of bytes magic env deserialize m]
    mesg_read_truncated [of bytes env magic deserialize m]
    mesg_read_whole [of env bytes magic deserialize m]
  by blast

theorem mesg_read_envelope_witness:
  "mesg_read example_read_env 0x12345678 (\<lambda>b. (0, \<lparr>idx = []\<rparr>))
      (Some [0x12, 0x34, 0x56, 0x78, 0, 8, 0xAA, 0xBB, 0xCC]) HMESG_INITIALIZER =
     Read_done 0 8 \<lparr>buf = [0x12, 0x34, 0x56, 0x78, 0, 8, 0xAA, 0xBB, 0], cand = \<lparr>idx = []\<rparr>\<rparr> \<and>
   mesg_read example_read_env 0x12345678 (\<lambda>b. (0, \<lparr>idx = []\<rparr>))
      (Some [0x12, 0x34, 0x56, 0x78, 0, 8, 0xAA]) HMESG_INITIALIZER = Read_failed \<and>
   mesg_read example_read_env 0x12345678 (\<lambda>b. (0, \<lparr>idx = []\<rparr>))
      (Some [0x12, 0x34, 0x56, 0x79, 0, 8, 0xAA, 0xBB, 0xCC]) HMESG_INITIALIZER = Read_failed"
  using mesg_read_envelope [of "[0x12, 0x34, 0x56, 0x78, 0, 8, 0xAA, 0xBB, 0xCC]" example_read_env
      "0x12345678" "\<lambda>b. (0, \<lparr>idx = []\<rparr>)" HMESG_INITIALIZER]
    mesg_read_envelope [of "[0x12, 0x34, 0x56, 0x78, 0, 8, 0xAA]" example_read_env
      "0x12345678" "\<lambda>b. (0, \<lparr>idx = []\<rparr>)" HMESG_INITIALIZER]
    mesg_read_envelope [of "[0x12, 0x34, 0x56, 0x79, 0, 8, 0xAA, 0xBB, 0xCC]" example_read_env
      "0x12345678" "\<lambda>b. (0, \<lparr>idx = []\<rparr>)" HMESG_INITIALIZER]
  by (simp add: example_read_env_def be32_def msglen_of_def mesg_read_def read_loop_eq
      HARMONY_HDRLEN_def HMESG_INITIALIZER_def poke_def)

text \<open>
  The claim has the decoder read exactly the announced number of bytes whenever the magic
  number matches and that many bytes are there.  With an announced length of 3 it reads
  the six header bytes.
\<close>

theorem mesg_read_short_length_reads_header:
  "be32 [0x12, 0x34, 0x56, 0x78, 0, 3, 0xAA, 0xBB] = 0x12345678 \<and>
   msglen_of [0x12, 0x34, 0x56, 0x78, 0, 3, 0xAA, 0xBB] = 3 \<and>
   mesg_read example_read_env 0x12345678 (\<lambda>b. (0, \<lparr>idx = []\<rparr>))
      (Some [0x12, 0x34, 0x56, 0x78, 0, 3, 0xAA, 0xBB]) example_mesg =
     Read_done 0 6 \<lparr>buf = [0x12, 0x34, 0x56, 0, 0, 3, 0xAA, 0xBB], cand = \<lparr>idx = []\<rparr>\<rparr>"
  by (simp add: example_read_env_def be32_def msglen_of_def mesg_read_def read_loop_eq
      HARMONY_HDRLEN_def example_mesg_def poke_def)

subsection \<open>The worker registry\<close>

lemma scan_eq:
  "h \<le> t \<Longrightarrow> t \<le> length mem \<Longrightarrow>
   scan P mem h t = h + length (takeWhile P (take (t - h) (drop h mem)))"
proof (induction P mem h t rule: scan.induct)
  case (1 P mem h t)
  show ?case
  proof (cases "h < t \<and> P (mem ! h)")
    case nostep: False
    then show ?thesis
    proof (cases "h < t")
      case True
      with nostep 1 have "\<not> P (hd (take (t - h) (drop h mem)))" "take (t - h) (drop h mem) \<noteq> []"
        by (auto simp: hd_drop_conv_nth)
      then have "takeWhile P (take (t - h) (drop h mem)) = []"
        by (cases "take (t - h) (drop h mem)") auto
      with nostep True show ?thesis by (subst scan.simps) simp
    next
      case False
      then show ?thesis using 1 by (subst scan.simps) simp
    qed
  next
    case True
    then have lt: "h < t" and P: "P (mem ! h)" by auto
    from lt 1 have hl: "h < length mem" by simp
    have split: "take (t - h) (drop h mem) = mem ! h # take (t - Suc h) (drop (Suc h) mem)"
      using lt hl by (metis Cons_nth_drop_Suc Suc_diff_Suc take_Suc_Cons)
    have "scan P mem h t = scan P mem (Suc h) t"
      using True by (subst scan.simps) simp
    also have "\<dots> = Suc h + length (takeWhile P (take (t - Suc h) (drop (Suc h) mem)))"
      using "1.IH" [OF True] lt "1.prems" by simp
    finally show ?thesis
      using P by (simp add: split)
  qed
qed

text \<open>Decimal digits.\<close>

lemma digit_char_code: "d < 10 \<Longrightarrow> of_char (digit_char d) = 48 + d"
proof -
  assume "d < 10"
  then have "d \<in> {0, 1, 2, 3, 4, 5, 6, 7, 8, 9}" by auto
  then show ?thesis
    unfolding digit_char_def by auto
qed

lemma in_base_10_iff: "in_base 10 c \<longleftrightarrow> 48 \<le> (of_char c :: nat) \<and> (of_char c :: nat) \<le> 57"
  by (auto simp: in_base_def digit_value_def Let_def)

lemma isspace_code: "isspace c \<Longrightarrow> (of_char c :: nat) \<le> 32"
  unfolding isspace_def by auto

lemma digit_char_props:
  assumes "d < 10"
  shows "digit_value (digit_char d) = Some d" "in_base 10 (digit_char d)"
    "\<not> isspace (digit_char d)" "digit_char d \<noteq> CHR '',''" "digit_char d \<noteq> CHR ''-''"
    "digit_char d \<noteq> CHR ''+''" "digit_char d = CHR ''0'' \<longleftrightarrow> d = 0"
proof -
  note c = digit_char_code [OF assms]
  show "digit_value (digit_char d) = Some d" "in_base 10 (digit_char d)"
    using assms by (simp_all add: digit_value_def in_base_def c)
  show "\<not> isspace (digit_char d)"
    using isspace_code [of "digit_char d"] c by auto
  have "of_char (digit_char d) \<noteq> (of_char CHR '','' :: nat)"
    "of_char (digit_char d) \<noteq> (of_char CHR ''-'' :: nat)"
    "of_char (digit_char d) \<noteq> (of_char CHR ''+'' :: nat)"
    unfolding c by simp_all
  then show "digit_char d \<noteq> CHR '',''" "digit_char d \<noteq> CHR ''-''" "digit_char d \<noteq> CHR ''+''"
    by auto
  have "of_char (digit_char d) = (of_char CHR ''0'' :: nat) \<longleftrightarrow> d = 0"
    unfolding c by simp
  then show "digit_char d = CHR ''0'' \<longleftrightarrow> d = 0"
    by (metis of_char_eq_iff)
qed

lemma not_digit_sep: "isspace c \<or> c = CHR '','' \<or> c = CHR 0x00 \<Longrightarrow> \<not> in_base 10 c"
  unfolding isspace_def by (auto simp: in_base_10_iff)


lemma digits_of_props:
  "digits_of n \<noteq> [] \<and> (\<forall>c \<in> set (digits_of n). in_base 10 c) \<and>
   (0 < n \<longrightarrow> hd (digits_of n) \<noteq> CHR ''0'') \<and>
   \<not> isspace (hd (digits_of n)) \<and> hd (digits_of n) \<noteq> CHR ''-'' \<and> hd (digits_of n) \<noteq> CHR ''+'' \<and>
   hd (digits_of n) \<noteq> CHR '','' \<and>
   foldl (\<lambda>a c. a * 10 + int (the (digit_value c))) 0 (digits_of n) = int n"
proof (induction n rule: digits_of.induct)
  case (1 n)
  show ?case
  proof (cases "n < 10")
    case True
    then show ?thesis
      by (subst (1 2 3 4 5 6 7 8) digits_of.simps) (simp add: digit_char_props)
  next
    case False
    then have m: "n mod 10 < 10" and d: "0 < n div 10" by auto
    note IH = "1.IH" [OF False]
    have unfold: "digits_of n = digits_of (n div 10) @ [digit_char (n mod 10)]"
      using False by (subst digits_of.simps) simp
    have "int (n div 10) * 10 + int (n mod 10) = int n"
      by (metis mult.commute of_nat_add of_nat_mult of_nat_numeral div_mult_mod_eq)
    with IH d m show ?thesis
      unfolding unfold by (simp add: digit_char_props)
  qed
qed

lemma takeWhile_prefix:
  "\<forall>c \<in> set xs. P c \<Longrightarrow> ys = [] \<or> \<not> P (hd ys) \<Longrightarrow> takeWhile P (xs @ ys) = xs"
  by (induction xs) (auto simp: takeWhile_eq_Nil_iff intro: takeWhile_eq_Nil_iff [THEN iffD2])

lemma dropWhile_prefix:
  "\<forall>c \<in> set xs. P c \<Longrightarrow> ys = [] \<or> \<not> P (hd ys) \<Longrightarrow> dropWhile P (xs @ ys) = ys"
  by (induction xs) (auto simp: dropWhile_eq_self_iff)

lemma strtol0_decimal:
  assumes ws: "\<forall>c \<in> set ws. isspace c"
    and n: "0 < n" "int n \<le> LONG_MAX"
    and rest: "rest = [] \<or> \<not> in_base 10 (hd rest)"
  shows "strtol0 (ws @ digits_of n @ rest) = (int n, length ws + length (digits_of n), False)"
proof -
  define ds where "ds = digits_of n"
  have ds: "ds \<noteq> []" "\<forall>c \<in> set ds. in_base 10 c" "hd ds \<noteq> CHR ''0''" "\<not> isspace (hd ds)"
    "hd ds \<noteq> CHR ''-''" "hd ds \<noteq> CHR ''+''"
    "foldl (\<lambda>a c. a * 10 + int (the (digit_value c))) 0 ds = int n"
    using digits_of_props [of n] n by (simp_all add: ds_def)
  have tw: "takeWhile isspace (ws @ ds @ rest) = ws"
    using ws ds by (intro takeWhile_prefix) auto
  have dw: "dropWhile isspace (ws @ ds @ rest) = ds @ rest"
    using ws ds by (intro dropWhile_prefix) auto
  have hd: "hd (ds @ rest) = hd ds" "ds @ rest \<noteq> []"
    using ds by auto
  have nohex: "\<not> hex_prefix (ds @ rest)"
  proof
    assume "hex_prefix (ds @ rest)"
    then have "hd (ds @ rest) = CHR ''0''"
      by (auto simp: hex_prefix_def split: list.splits)
    with hd ds show False by simp
  qed
  have digs: "takeWhile (in_base 10) (ds @ rest) = ds"
    using ds rest by (intro takeWhile_prefix) auto
  show ?thesis
    unfolding strtol0_def ds_def [symmetric]
    using ds n by (simp add: tw dw hd nohex digs Let_def)
qed

lemma isspace_not_comma: "isspace c \<Longrightarrow> c \<noteq> CHR '',''"
  by (auto simp: isspace_def)

lemma in_base_10_not_comma: "in_base 10 c \<Longrightarrow> c \<noteq> CHR '',''"
  by (auto simp: in_base_10_iff)

lemma digits_of_in_base: "c \<in> set (digits_of n) \<Longrightarrow> in_base 10 c"
  using digits_of_props [of n] by blast

lemma entry_text_no_comma:
  assumes "well_formed_entry e"
  shows "CHR '','' \<notin> set (entry_text e)"
proof
  assume "CHR '','' \<in> set (entry_text e)"
  then consider "CHR '','' \<in> set (e_lead e)" | "CHR '','' \<in> set (e_host e)"
    | "CHR '','' \<in> set (e_gap e)" | "CHR '','' \<in> set (digits_of (e_count e))"
    | "CHR '','' \<in> set (e_trail e)"
    by (auto simp: entry_text_def)
  then show False
  proof cases
    case 1
    with assms have "isspace CHR '',''" by (auto simp: well_formed_entry_def list_all_iff)
    then show False by (simp add: isspace_def)
  next
    case 2
    with assms show False by (auto simp: well_formed_entry_def list_all_iff)
  next
    case 3
    with assms have "isspace CHR '',''" by (auto simp: well_formed_entry_def list_all_iff)
    then show False by (simp add: isspace_def)
  next
    case 4
    then have "in_base 10 CHR '',''" by (rule digits_of_in_base)
    then show False by (simp add: in_base_10_iff)
  next
    case 5
    with assms have "isspace CHR '',''" by (auto simp: well_formed_entry_def list_all_iff)
    then show False by (simp add: isspace_def)
  qed
qed

lemma str_find_nth: "str_find c s = Some d \<Longrightarrow> d < length s \<and> s ! d = c"
  by (induction s arbitrary: d) (auto split: if_splits option.splits)

lemma str_find_skip:
  assumes "str_find c s = Some k" and "c \<notin> set (take m s)"
  shows "m \<le> k"
proof (rule ccontr)
  assume "\<not> m \<le> k"
  then have "k < m" by simp
  moreover from assms(1) have "k < length s" "s ! k = c"
    using str_find_nth by blast+
  ultimately have "take m s ! k = c" "k < length (take m s)" by simp_all
  then have "c \<in> set (take m s)" by (metis nth_mem)
  with assms(2) show False by simp
qed

text \<open>Where \<^verbatim>\<open>tail\<close> lies: not before the end of a stretch that has no comma.\<close>

lemma entry_tail_bounds:
  assumes "h + m \<le> en" and "CHR '','' \<notin> set (take m (drop h mem))"
  defines "t \<equiv> (case str_find (CHR '','') (take (en - h) (drop h mem)) of
                    None \<Rightarrow> en | Some k \<Rightarrow> h + k)"
  shows "h + m \<le> t" and "t \<le> en"
proof -
  show "t \<le> en"
    using assms(1) by (auto simp: t_def split: option.splits dest!: str_find_less)
  show "h + m \<le> t"
  proof (cases "str_find (CHR '','') (take (en - h) (drop h mem))")
    case None
    with assms(1) show ?thesis by (simp add: t_def)
  next
    case (Some k)
    have "take m (take (en - h) (drop h mem)) = take m (drop h mem)"
      using assms(1) by (simp add: min_def)
    with assms(2) have "m \<le> k"
      using str_find_skip [OF Some, of m] by simp
    with Some show ?thesis by (simp add: t_def)
  qed
qed

lemma takeWhile_all_append:
  "\<forall>x \<in> set xs. P x \<Longrightarrow> takeWhile P (xs @ ys) = xs @ takeWhile P ys"
  by (induction xs) auto

text \<open>
  One turn of the loop on a well-formed entry followed by any text \<open>X\<close>: the host and the
  number are found; the error check then depends on what stands between the entry and
  \<^verbatim>\<open>tail\<close>.
\<close>

lemma parse_entry_wf:
  assumes wf: "well_formed_entry e"
    and mem: "mem = pfx @ entry_text e @ X"
    and en: "length pfx + length (entry_text e) \<le> en" "en \<le> length mem"
    and X: "e_trail e = [] \<Longrightarrow> X = [] \<or> \<not> in_base 10 (hd X)"
  defines "T \<equiv> length pfx + length (entry_text e)"
  defines "T' \<equiv> (case str_find (CHR '','') (take (en - length pfx) (drop (length pfx) mem)) of
                    None \<Rightarrow> en | Some k \<Rightarrow> length pfx + k)"
  shows "parse_entry mem en (length pfx) =
           (if scan isspace mem T T' = T' then Some (e_host e, int (e_count e), T') else None)"
    and "T \<le> T'" and "T' \<le> en"
proof -
  define L where "L = e_lead e"
  define H where "H = e_host e"
  define G where "G = e_gap e"
  define D where "D = digits_of (e_count e)"
  define Tr where "Tr = e_trail e"
  have et: "entry_text e = L @ H @ G @ D @ Tr"
    by (simp add: entry_text_def L_def H_def G_def D_def Tr_def)
  have L: "\<forall>x \<in> set L. isspace x" and G: "G \<noteq> []" "\<forall>x \<in> set G. isspace x"
    and Tr: "\<forall>x \<in> set Tr. isspace x"
    and H: "H \<noteq> []" "\<forall>x \<in> set H. \<not> isspace x"
    and n: "0 < e_count e" "int (e_count e) \<le> LONG_MAX"
    using wf by (auto simp: well_formed_entry_def list_all_iff L_def G_def Tr_def H_def)
  obtain g G' where G': "G = g # G'" using G by (cases G) auto
  \<comment> \<open>the entry boundary\<close>
  have "take (length (entry_text e)) (drop (length pfx) mem) = entry_text e"
    by (simp add: mem)
  then have "CHR '','' \<notin> set (take (length (entry_text e)) (drop (length pfx) mem))"
    using entry_text_no_comma [OF wf] by simp
  from entry_tail_bounds [OF en(1) this]
  show bounds: "T \<le> T'" "T' \<le> en"
    by (simp_all add: T_def T'_def)
  have Tlen: "T' \<le> length mem" using bounds en by simp
  obtain k where k: "T' = T + k" using bounds by (metis le_Suc_ex)
  \<comment> \<open>leading white space\<close>
  have w1: "take (T' - length pfx) (drop (length pfx) mem) = L @ H @ G @ D @ Tr @ take k X"
    by (simp add: mem k T_def et)
  have "takeWhile isspace (L @ (H @ G @ D @ Tr @ take k X)) = L"
    using L H by (intro takeWhile_prefix) (auto simp: neq_Nil_conv)
  moreover have "length pfx \<le> T'" by (simp add: k T_def)
  ultimately have head1: "scan isspace mem (length pfx) T' = length pfx + length L"
    using Tlen by (simp only: scan_eq w1)
  \<comment> \<open>the host\<close>
  have w2: "take (T' - (length pfx + length L)) (drop (length pfx + length L) mem)
      = H @ G @ D @ Tr @ take k X"
    by (simp add: mem k T_def et)
  have "takeWhile (\<lambda>x. \<not> isspace x) (H @ (G @ D @ Tr @ take k X)) = H"
    using H G by (intro takeWhile_prefix) (auto simp: neq_Nil_conv)
  moreover have "length pfx + length L \<le> T'" by (simp add: k T_def et)
  ultimately have head2: "scan (\<lambda>x. \<not> isspace x) mem (length pfx + length L) T'
      = length pfx + length L + length H"
    using Tlen by (simp only: scan_eq w2)
  have hname: "take (length H) (drop (length pfx + length L) mem) = H"
    by (simp add: mem et)
  \<comment> \<open>the number\<close>
  have rest: "drop (Suc (length pfx + length L + length H)) mem = G' @ D @ (Tr @ X)"
    by (simp add: mem et G')
  have "Tr @ X = [] \<or> \<not> in_base 10 (hd (Tr @ X))"
  proof (cases Tr)
    case Nil
    with X show ?thesis by (simp add: Tr_def)
  next
    case (Cons a list)
    with Tr have "isspace (hd (Tr @ X))" by simp
    then show ?thesis using not_digit_sep by blast
  qed
  then have num: "strtol0 (G' @ D @ (Tr @ X)) = (int (e_count e), length G' + length D, False)"
    unfolding D_def using G n by (intro strtol0_decimal) (auto simp: G')
  \<comment> \<open>trailing white space\<close>
  define h4 where "h4 = Suc (length pfx + length L + length H) + (length G' + length D)"
  have h4: "h4 = length pfx + length (L @ H @ G @ D)" by (simp add: h4_def G')
  have w3: "take (T' - h4) (drop h4 mem) = Tr @ take k X"
    by (simp add: mem k T_def et h4)
  have w4: "take (T' - T) (drop T mem) = take k X"
    by (simp add: mem k T_def)
  have tw: "takeWhile isspace (Tr @ take k X) = Tr @ takeWhile isspace (take k X)"
    using Tr by (rule takeWhile_all_append)
  have "h4 \<le> T'" "h4 + length Tr = T" by (simp_all add: k T_def et h4)
  then have head5: "scan isspace mem h4 T' = scan isspace mem T T'"
    using Tlen bounds by (simp add: scan_eq w3 w4 tw)
  have diff: "length pfx + length L + length H - (length pfx + length L) = length H"
    by simp
  have neg: "int (e_count e) \<noteq> - 1" by simp
  show "parse_entry mem en (length pfx) =
      (if scan isspace mem T T' = T' then Some (e_host e, int (e_count e), T') else None)"
    unfolding parse_entry_def T'_def [symmetric] Let_def head1 head2 diff hname rest num prod.case
      h4_def [symmetric] head5
    using H(1) neg head5 by (simp add: H_def)
qed

lemma parse_entry_valid:
  assumes wf: "well_formed_entry e"
    and mem: "mem = pfx @ entry_text e @ c # R"
    and c: "(c = CHR '','' \<and> length pfx + length (entry_text e) < en) \<or>
            (c = CHR 0x00 \<and> en = length pfx + length (entry_text e))"
    and en: "en \<le> length mem"
  shows "parse_entry mem en (length pfx) =
           Some (e_host e, int (e_count e), length pfx + length (entry_text e))"
proof -
  define T where "T = length pfx + length (entry_text e)"
  define T' where "T' = (case str_find (CHR '','') (take (en - length pfx) (drop (length pfx) mem)) of
                    None \<Rightarrow> en | Some k \<Rightarrow> length pfx + k)"
  have find: "str_find (CHR '','') (take (en - length pfx) (drop (length pfx) mem)) =
      (if c = CHR '','' then Some (length (entry_text e)) else None)"
  proof (cases "c = CHR '',''")
    case True
    with c have "length (entry_text e) < en - length pfx" by auto
    then have "take (en - length pfx) (drop (length pfx) mem) =
        entry_text e @ CHR '','' # take (en - length pfx - Suc (length (entry_text e))) R"
      using True by (simp add: mem take_Cons')
    with True show ?thesis
      by (simp add: str_find_first entry_text_no_comma [OF wf])
  next
    case False
    with c have "en - length pfx = length (entry_text e)" by auto
    then have "take (en - length pfx) (drop (length pfx) mem) = entry_text e"
      by (simp add: mem)
    with False show ?thesis
      by (simp add: str_find_None entry_text_no_comma [OF wf])
  qed
  have tail: "T' = T"
    using c by (auto simp: find T_def T'_def)
  have le: "length pfx + length (entry_text e) \<le> en" using c by auto
  have X: "c # R = [] \<or> \<not> in_base 10 (hd (c # R))"
    using c not_digit_sep [of c] by auto
  have "scan isspace mem T T = T"
    by (subst scan.simps) simp
  with parse_entry_wf(1) [OF wf mem le en X] show ?thesis
    unfolding T_def [symmetric] T'_def [symmetric] tail by simp
qed

lemma parse_loop_step:
  assumes "parse_entry mem en h = Some (hn, num, t)" and "h < en"
  shows "parse_loop mem en h ng gl =
           parse_loop mem en (Suc t) ng
             (gl @ map (\<lambda>i. ng\<lparr>hostname := hn @ ''_'' @ show_long i\<rparr>) [1..num])"
  using assms by (subst parse_loop.simps) simp

lemma parse_loop_done: "\<not> h < en \<Longrightarrow> parse_loop mem en h ng gl = (0, gl)"
  by (subst parse_loop.simps) simp

lemma parse_loop_error:
  "parse_entry mem en h = None \<Longrightarrow> h < en \<Longrightarrow> parse_loop mem en h ng gl = (- 1, [])"
  by (subst parse_loop.simps) simp

lemma entry_text_nonempty: "well_formed_entry e \<Longrightarrow> entry_text e \<noteq> []"
  by (auto simp: well_formed_entry_def entry_text_def)

lemma parse_loop_valid:
  assumes "list_all well_formed_entry es"
  shows "parse_loop (pfx @ host_spec es @ CHR 0x00 # beyond)
           (length pfx + length (host_spec es)) (length pfx) ng gl =
         (0, gl @ concat (map (entry_slots ng) es))"
  using assms
proof (induction es arbitrary: pfx gl rule: host_spec.induct)
  case 1
  show ?case by (simp add: parse_loop_done)
next
  case (2 e)
  then have wf: "well_formed_entry e" by simp
  define mem where "mem = pfx @ entry_text e @ CHR 0x00 # beyond"
  define T where "T = length pfx + length (entry_text e)"
  have pe: "parse_entry mem T (length pfx) = Some (e_host e, int (e_count e), T)"
    unfolding T_def by (rule parse_entry_valid [OF wf mem_def]) (simp_all add: mem_def)
  have lt: "length pfx < T"
    using entry_text_nonempty [OF wf] by (simp add: T_def)
  have "parse_loop mem T (length pfx) ng gl = parse_loop mem T (Suc T) ng (gl @ entry_slots ng e)"
    unfolding entry_slots_def by (rule parse_loop_step [OF pe lt])
  also have "\<dots> = (0, gl @ entry_slots ng e)"
    by (simp add: parse_loop_done)
  finally show ?case
    by (simp add: mem_def T_def)
next
  case (3 e e' es)
  then have wf: "well_formed_entry e" and wfs: "list_all well_formed_entry (e' # es)"
    by simp_all
  define rest where "rest = host_spec (e' # es)"
  define mem where "mem = pfx @ entry_text e @ CHR '','' # rest @ CHR 0x00 # beyond"
  define T where "T = length pfx + length (entry_text e)"
  define en where "en = length pfx + length (host_spec (e # e' # es))"
  have en: "en = Suc T + length rest"
    by (simp add: en_def T_def rest_def)
  have mem': "mem = pfx @ entry_text e @ CHR '','' # (rest @ CHR 0x00 # beyond)"
    by (simp add: mem_def)
  have pe: "parse_entry mem en (length pfx) = Some (e_host e, int (e_count e), T)"
    unfolding T_def by (rule parse_entry_valid [OF wf mem']) (simp_all add: en T_def mem_def)
  have lt: "length pfx < en"
    by (simp add: en T_def)
  have step: "parse_loop mem en (length pfx) ng gl = parse_loop mem en (Suc T) ng (gl @ entry_slots ng e)"
    unfolding entry_slots_def by (rule parse_loop_step [OF pe lt])
  have mem2: "mem = (pfx @ entry_text e @ '','') @ host_spec (e' # es) @ CHR 0x00 # beyond"
    by (simp add: mem_def rest_def)
  have "parse_loop mem en (Suc T) ng (gl @ entry_slots ng e) =
      (0, (gl @ entry_slots ng e) @ concat (map (entry_slots ng) (e' # es)))"
    using "3.IH" [OF wfs, of "pfx @ entry_text e @ '',''" "gl @ entry_slots ng e"]
    unfolding mem2 [symmetric] by (simp add: en T_def rest_def)
  with step have "parse_loop mem en (length pfx) ng gl =
      (0, gl @ concat (map (entry_slots ng) (e # e' # es)))"
    by simp
  then show ?case
    by (simp add: mem_def en_def rest_def)
qed

lemma in_base_10_char:
  assumes "in_base 10 j"
  shows "j \<in> set ''0123456789''"
proof -
  define d where "d = (of_char j :: nat) - 48"
  from assms have d: "d < 10" "(of_char j :: nat) = 48 + d"
    by (auto simp: in_base_10_iff d_def)
  then have "(of_char (digit_char d) :: nat) = of_char j"
    by (simp add: digit_char_code)
  then have "digit_char d = j" by (metis of_char_eq_iff)
  moreover have "digit_char d \<in> set ''0123456789''"
    unfolding digit_char_def using d(1) by (intro nth_mem) simp
  ultimately show ?thesis by simp
qed

lemma parse_loop_rc:
  "fst (parse_loop mem en h ng gl) = 0 \<or> parse_loop mem en h ng gl = (- 1, [])"
proof (induction mem en h ng gl rule: parse_loop.induct)
  case (1 mem en h ng gl)
  show ?case
  proof (cases "h < en")
    case False
    then show ?thesis by (simp add: parse_loop_done)
  next
    case True
    show ?thesis
    proof (cases "parse_entry mem en h")
      case None
      with True show ?thesis by (simp add: parse_loop_error)
    next
      case (Some r)
      obtain hn num t where r: "r = (hn, num, t)" by (cases r)
      from "1.IH" [OF True Some [unfolded r] refl refl]
      show ?thesis
        unfolding parse_loop_step [OF Some [unfolded r] True] .
    qed
  qed
qed


lemma parse_loop_prefix:
  assumes "list_all well_formed_entry es"
    and "length pfx + length (entries_text es) \<le> en"
    and "en \<le> length (pfx @ entries_text es @ Z)"
  shows "parse_loop (pfx @ entries_text es @ Z) en (length pfx) ng gl =
         parse_loop (pfx @ entries_text es @ Z) en (length pfx + length (entries_text es)) ng
           (gl @ concat (map (entry_slots ng) es))"
  using assms
proof (induction es arbitrary: pfx gl)
  case Nil
  show ?case by (simp add: entries_text_def)
next
  case (Cons e es)
  then have wf: "well_formed_entry e" and wfs: "list_all well_formed_entry es"
    by simp_all
  define mem where "mem = pfx @ entries_text (e # es) @ Z"
  define T where "T = length pfx + length (entry_text e)"
  have mem': "mem = pfx @ entry_text e @ CHR '','' # (entries_text es @ Z)"
    by (simp add: mem_def entries_text_def)
  have len: "length (entries_text (e # es)) = Suc (length (entry_text e)) + length (entries_text es)"
    by (simp add: entries_text_def)
  have lt: "T < en" "length pfx < en"
    using Cons.prems(2) by (simp_all add: len T_def)
  have en: "en \<le> length mem"
    using Cons.prems(3) by (simp add: mem_def)
  have pe: "parse_entry mem en (length pfx) = Some (e_host e, int (e_count e), T)"
    unfolding T_def by (rule parse_entry_valid [OF wf mem' _ en]) (use lt in \<open>simp add: T_def\<close>)
  have step: "parse_loop mem en (length pfx) ng gl = parse_loop mem en (Suc T) ng (gl @ entry_slots ng e)"
    unfolding entry_slots_def by (rule parse_loop_step [OF pe lt(2)])
  have mem2: "mem = (pfx @ entry_text e @ '','') @ entries_text es @ Z"
    by (simp add: mem')
  have "parse_loop mem en (length (pfx @ entry_text e @ '','')) ng (gl @ entry_slots ng e) =
      parse_loop mem en (length (pfx @ entry_text e @ '','') + length (entries_text es)) ng
        ((gl @ entry_slots ng e) @ concat (map (entry_slots ng) es))"
    unfolding mem2
    by (rule Cons.IH [OF wfs]) (use Cons.prems(2,3) in \<open>simp_all add: len\<close>)
  with step show ?case
    unfolding mem_def [symmetric] by (simp add: T_def len ac_simps)
qed

lemma parse_entry_blank:
  assumes ws: "\<forall>x \<in> set ws. isspace x"
    and mem: "mem = pfx @ ws @ X"
    and X: "(X \<noteq> [] \<and> hd X = CHR '','' \<and> length pfx + length ws < en) \<or>
            en = length pfx + length ws"
    and en: "en \<le> length mem"
  shows "parse_entry mem en (length pfx) = None"
proof -
  define T where "T = length pfx + length ws"
  have nc: "CHR '','' \<notin> set ws"
    using ws isspace_not_comma by blast
  have find: "(case str_find (CHR '','') (take (en - length pfx) (drop (length pfx) mem)) of
                 None \<Rightarrow> en | Some k \<Rightarrow> length pfx + k) = T"
  proof (cases "en = length pfx + length ws")
    case True
    then have "take (en - length pfx) (drop (length pfx) mem) = ws"
      by (simp add: mem)
    with True nc show ?thesis by (simp add: str_find_None T_def)
  next
    case False
    with X obtain X' where X': "X = CHR '','' # X'" "length pfx + length ws < en"
      by (cases X) auto
    then have "take (en - length pfx) (drop (length pfx) mem) =
        ws @ CHR '','' # take (en - length pfx - Suc (length ws)) X'"
      by (simp add: mem take_Cons')
    with nc show ?thesis by (simp add: str_find_first T_def)
  qed
  have Tlen: "T \<le> length mem" "length pfx \<le> T"
    using X en by (auto simp: T_def mem)
  have w: "take (T - length pfx) (drop (length pfx) mem) = ws"
    by (simp add: T_def mem)
  have "takeWhile isspace ws = ws" using ws by simp
  then have tw: "length (takeWhile isspace ws) = length ws" by (rule arg_cong)
  have head1: "scan isspace mem (length pfx) T = T"
    unfolding scan_eq [OF Tlen(2) Tlen(1)] w tw by (simp add: T_def)
  have head2: "scan (\<lambda>x. \<not> isspace x) mem T T = T"
    by (subst scan.simps) simp
  show ?thesis
    unfolding parse_entry_def find Let_def head1 head2
    by (simp split: prod.splits)
qed

lemma parse_entry_junk:
  assumes wf: "well_formed_entry e"
    and mem: "mem = pfx @ entry_text e @ j # X"
    and j: "\<not> isspace j" "j \<noteq> CHR '',''" "e_trail e = [] \<Longrightarrow> \<not> in_base 10 j"
    and en: "length pfx + length (entry_text e) < en" "en \<le> length mem"
  shows "parse_entry mem en (length pfx) = None"
proof -
  define T where "T = length pfx + length (entry_text e)"
  define T' where "T' = (case str_find (CHR '','') (take (en - length pfx) (drop (length pfx) mem)) of
                    None \<Rightarrow> en | Some k \<Rightarrow> length pfx + k)"
  have "take (Suc (length (entry_text e))) (drop (length pfx) mem) = entry_text e @ [j]"
    by (simp add: mem)
  then have "CHR '','' \<notin> set (take (Suc (length (entry_text e))) (drop (length pfx) mem))"
    using entry_text_no_comma [OF wf] j(2) by simp
  moreover have "length pfx + Suc (length (entry_text e)) \<le> en" using en by simp
  ultimately have "length pfx + Suc (length (entry_text e)) \<le> T'"
    unfolding T'_def by (rule entry_tail_bounds(1) [rotated])
  then have lt: "T < T'" by (simp add: T_def)
  have "mem ! T = j" by (simp add: mem T_def nth_append)
  then have "scan isspace mem T T' = T"
    using j(1) by (subst scan.simps) simp
  with lt have ne: "scan isspace mem T T' \<noteq> T'" by simp
  have X: "e_trail e = [] \<Longrightarrow> j # X = [] \<or> \<not> in_base 10 (hd (j # X))"
    using j(3) by simp
  have le: "length pfx + length (entry_text e) \<le> en" using en by simp
  from parse_entry_wf(1) [OF wf mem le en(2) X] ne
  show ?thesis
    unfolding T_def [symmetric] T'_def [symmetric] by simp
qed

lemma digits_of_examples: "digits_of (Suc 0) = ''1''" "digits_of 1 = ''1''" "digits_of 2 = ''2''"
  by (simp_all add: digits_of.simps digit_char_def)

lemma example_entries_ok:
  "list_all well_formed_entry example_entries"
  "host_spec example_entries = ''alpha 2, beta 1''"
  "entries_text [hd example_entries] = ''alpha 2,''"
  by (simp_all add: example_entries_def well_formed_entry_def isspace_def LONG_MAX_def
      entry_text_def entries_text_def digits_of_examples)

lemma length_entry_slots: "length (entry_slots ng e) = e_count e"
  by (simp add: entry_slots_def)

lemma hostname_entry_slots: "map hostname (entry_slots ng e) = slot_names e"
  by (simp add: entry_slots_def slot_names_def comp_def)

text \<open>
  C2 (as the code has it).  For every host list made of entries \<^verbatim>\<open><host> <count>\<close>
  separated by commas, where the host is not empty and holds no white space, comma or NUL,
  white space stands between host and count and may stand before the host and after the
  count, and the count is a decimal numeral without leading zero, positive and below
  \<^verbatim>\<open>LONG_MAX\<close>: \<open>parse_slave_list\<close> succeeds and the registry holds, in the order of the
  entries, the slots \<^verbatim>\<open><host>_1\<close> to \<^verbatim>\<open><host>_<count>\<close>, as many as the counts add up to.
\<close>

theorem parse_slave_list_valid:
  assumes "list_all well_formed_entry es"
  shows "parse_slave_list (Some (host_spec es)) beyond step0 glist =
           (0, concat (map (entry_slots
                  \<lparr>pid = 0, step = step0, mesg = HMESG_INITIALIZER, hostname = []\<rparr>) es)) \<and>
         map hostname (snd (parse_slave_list (Some (host_spec es)) beyond step0 glist)) =
           concat (map slot_names es) \<and>
         length (snd (parse_slave_list (Some (host_spec es)) beyond step0 glist)) =
           sum_list (map e_count es)"
proof -
  have "parse_slave_list (Some (host_spec es)) beyond step0 glist =
      (0, concat (map (entry_slots
             \<lparr>pid = 0, step = step0, mesg = HMESG_INITIALIZER, hostname = []\<rparr>) es))"
    using parse_loop_valid [OF assms, of "[]" beyond _ "[]"]
    by (simp add: parse_slave_list_def)
  then show ?thesis
    by (simp add: map_concat comp_def hostname_entry_slots length_concat length_entry_slots)
qed

theorem parse_slave_list_valid_witness:
  "parse_slave_list (Some ''alpha 2, beta 1'') [] 7 [] =
     (0, [\<lparr>pid = 0, step = 7, mesg = HMESG_INITIALIZER, hostname = ''alpha_1''\<rparr>,
          \<lparr>pid = 0, step = 7, mesg = HMESG_INITIALIZER, hostname = ''alpha_2''\<rparr>,
          \<lparr>pid = 0, step = 7, mesg = HMESG_INITIALIZER, hostname = ''beta_1''\<rparr>])"
  using parse_slave_list_valid [OF example_entries_ok(1), of "[]" 7 "[]"]
  by (simp add: example_entries_ok(2))
     (simp add: example_entries_def entry_slots_def show_long_examples upto.simps)

text \<open>
  The claim reads the count as a number in decimal.  The code reads it with \<^verbatim>\<open>strtol\<close> in
  base 0, where a leading \<^verbatim>\<open>0\<close> announces an octal numeral and \<^verbatim>\<open>0x\<close> a hexadecimal one:
  \<^verbatim>\<open>alpha 010\<close> gives 8 slots and \<^verbatim>\<open>alpha 0x10\<close> gives 16, \<^verbatim>\<open>alpha 08\<close> is rejected, and so
  is a count that does not fit a \<^verbatim>\<open>long\<close>.
\<close>

theorem parse_slave_list_count_base:
  "map hostname (snd (parse_slave_list (Some ''alpha 010'') [] 0 [])) =
     [''alpha_1'', ''alpha_2'', ''alpha_3'', ''alpha_4'', ''alpha_5'', ''alpha_6'', ''alpha_7'',
      ''alpha_8''] \<and>
   length (snd (parse_slave_list (Some ''alpha 0x10'') [] 0 [])) = 16 \<and>
   parse_slave_list (Some ''alpha 08'') [] 0 [] = (- 1, []) \<and>
   parse_slave_list (Some ''alpha 9223372036854775808'') [] 0 [] = (- 1, [])"
  by code_simp

text \<open>
  C3 (as the code has it).  Whatever the host list, \<open>parse_slave_list\<close> either returns 0
  or returns \<open>-1\<close> with an empty registry.  After any number of well-formed entries, each
  with its comma, the host list is rejected
  \<^item> when white space alone (or nothing) stands before a further comma, and when white
    space, at least one character, ends the list: an entry with an empty host;
  \<^item> when a well-formed entry is followed by a character that is neither white space nor
    a comma (and, where it stands directly after the count, not a decimal digit): an entry
    with trailing text.

  A host list that ends with the comma of its last entry, and so the empty host list, is
  accepted: nothing is read after the last comma.
\<close>

theorem parse_slave_list_malformed:
  "(fst (parse_slave_list (Some s) beyond step0 glist) = 0 \<or>
    parse_slave_list (Some s) beyond step0 glist = (- 1, [])) \<and>
   (list_all well_formed_entry es \<and> list_all isspace ws \<and>
    (rest = [] \<and> ws \<noteq> [] \<or> rest \<noteq> [] \<and> hd rest = CHR '','') \<longrightarrow>
      parse_slave_list (Some (entries_text es @ ws @ rest)) beyond step0 glist = (- 1, [])) \<and>
   (list_all well_formed_entry es \<and> well_formed_entry e \<and> \<not> isspace j \<and> j \<noteq> CHR '','' \<and>
    (e_trail e = [] \<longrightarrow> j \<notin> set ''0123456789'') \<longrightarrow>
      parse_slave_list (Some (entries_text es @ entry_text e @ j # rest)) beyond step0 glist
        = (- 1, [])) \<and>
   (list_all well_formed_entry es \<longrightarrow>
      parse_slave_list (Some (entries_text es)) beyond step0 glist =
        (0, concat (map (entry_slots
               \<lparr>pid = 0, step = step0, mesg = HMESG_INITIALIZER, hostname = []\<rparr>) es)))"
proof (intro conjI impI)
  show "fst (parse_slave_list (Some s) beyond step0 glist) = 0 \<or>
      parse_slave_list (Some s) beyond step0 glist = (- 1, [])"
    by (simp add: parse_slave_list_def parse_loop_rc)
next
  assume a: "list_all well_formed_entry es \<and> list_all isspace ws \<and>
    (rest = [] \<and> ws \<noteq> [] \<or> rest \<noteq> [] \<and> hd rest = CHR '','')"
  define ng where "ng = \<lparr>pid = 0, step = step0, mesg = HMESG_INITIALIZER, hostname = []\<rparr>"
  define mem where "mem = (entries_text es @ ws @ rest) @ CHR 0x00 # beyond"
  define en where "en = length (entries_text es @ ws @ rest)"
  have mem1: "mem = [] @ entries_text es @ (ws @ rest @ CHR 0x00 # beyond)"
    and mem2: "mem = entries_text es @ ws @ (rest @ CHR 0x00 # beyond)"
    by (simp_all add: mem_def)
  have "parse_loop mem en (length ([] :: string)) ng [] =
      parse_loop mem en (length ([] :: string) + length (entries_text es)) ng
        ([] @ concat (map (entry_slots ng) es))"
    unfolding mem1 by (rule parse_loop_prefix) (use a in \<open>simp_all add: en_def\<close>)
  moreover have "parse_entry mem en (length (entries_text es)) = None"
    by (rule parse_entry_blank [OF _ mem2])
       (use a in \<open>auto simp: en_def mem_def list_all_iff\<close>)
  moreover have "length (entries_text es) < en"
    using a by (auto simp: en_def)
  ultimately have "parse_loop mem en 0 ng [] = (- 1, [])"
    by (simp add: parse_loop_error)
  then show "parse_slave_list (Some (entries_text es @ ws @ rest)) beyond step0 glist = (- 1, [])"
    by (simp add: parse_slave_list_def mem_def en_def ng_def)
next
  assume a: "list_all well_formed_entry es \<and> well_formed_entry e \<and> \<not> isspace j \<and> j \<noteq> CHR '','' \<and>
    (e_trail e = [] \<longrightarrow> j \<notin> set ''0123456789'')"
  define ng where "ng = \<lparr>pid = 0, step = step0, mesg = HMESG_INITIALIZER, hostname = []\<rparr>"
  define mem where "mem = (entries_text es @ entry_text e @ j # rest) @ CHR 0x00 # beyond"
  define en where "en = length (entries_text es @ entry_text e @ j # rest)"
  have mem1: "mem = [] @ entries_text es @ (entry_text e @ j # rest @ CHR 0x00 # beyond)"
    and mem2: "mem = entries_text es @ entry_text e @ j # (rest @ CHR 0x00 # beyond)"
    by (simp_all add: mem_def)
  have "parse_loop mem en (length ([] :: string)) ng [] =
      parse_loop mem en (length ([] :: string) + length (entries_text es)) ng
        ([] @ concat (map (entry_slots ng) es))"
    unfolding mem1 by (rule parse_loop_prefix) (use a in \<open>simp_all add: en_def\<close>)
  moreover have "parse_entry mem en (length (entries_text es)) = None"
    by (rule parse_entry_junk [OF _ mem2])
       (use a in_base_10_char [of j] in \<open>auto simp: en_def mem_def\<close>)
  moreover have "length (entries_text es) < en"
    by (simp add: en_def)
  ultimately have "parse_loop mem en 0 ng [] = (- 1, [])"
    by (simp add: parse_loop_error)
  then show "parse_slave_list (Some (entries_text es @ entry_text e @ j # rest)) beyond step0 glist
      = (- 1, [])"
    by (simp add: parse_slave_list_def mem_def en_def ng_def)
next
  assume a: "list_all well_formed_entry es"
  define ng where "ng = \<lparr>pid = 0, step = step0, mesg = HMESG_INITIALIZER, hostname = []\<rparr>"
  define mem where "mem = entries_text es @ CHR 0x00 # beyond"
  define en where "en = length (entries_text es)"
  have mem1: "mem = [] @ entries_text es @ (CHR 0x00 # beyond)"
    by (simp add: mem_def)
  have "parse_loop mem en (length ([] :: string)) ng [] =
      parse_loop mem en (length ([] :: string) + length (entries_text es)) ng
        ([] @ concat (map (entry_slots ng) es))"
    unfolding mem1 by (rule parse_loop_prefix) (use a in \<open>simp_all add: en_def\<close>)
  then have "parse_loop mem en 0 ng [] = (0, concat (map (entry_slots ng) es))"
    by (simp add: parse_loop_done en_def)
  then show "parse_slave_list (Some (entries_text es)) beyond step0 glist =
      (0, concat (map (entry_slots
             \<lparr>pid = 0, step = step0, mesg = HMESG_INITIALIZER, hostname = []\<rparr>) es))"
    by (simp add: parse_slave_list_def mem_def en_def ng_def)
qed

theorem parse_slave_list_malformed_witness:
  "parse_slave_list (Some ''alpha 2,,beta 1'') [] 0 [] = (- 1, []) \<and>
   parse_slave_list (Some ''alpha 2, '') [] 0 [] = (- 1, []) \<and>
   parse_slave_list (Some ''alpha 2, beta 1 x'') [] 0 [] = (- 1, []) \<and>
   parse_slave_list (Some ''alpha 2,'') [] 0 [] =
     (0, [\<lparr>pid = 0, step = 0, mesg = HMESG_INITIALIZER, hostname = ''alpha_1''\<rparr>,
          \<lparr>pid = 0, step = 0, mesg = HMESG_INITIALIZER, hostname = ''alpha_2''\<rparr>])"
  using parse_slave_list_malformed [where beyond = "[]" and ?step0.0 = 0 and glist = "[]"
      and es = "[hd example_entries]" and ws = "[]" and rest = "'',beta 1''",
      THEN conjunct2, THEN conjunct1]
    parse_slave_list_malformed [where beyond = "[]" and ?step0.0 = 0 and glist = "[]"
      and es = "[hd example_entries]" and ws = "'' ''" and rest = "[]",
      THEN conjunct2, THEN conjunct1]
    parse_slave_list_malformed [where beyond = "[]" and ?step0.0 = 0 and glist = "[]"
      and es = "[hd example_entries]"
      and e = "\<lparr>e_lead = '' '', e_host = ''beta'', e_gap = '' '', e_count = 1, e_trail = '' ''\<rparr>"
      and j = "CHR ''x''" and rest = "[]",
      THEN conjunct2, THEN conjunct2, THEN conjunct1]
    parse_slave_list_malformed [where beyond = "[]" and ?step0.0 = 0 and glist = "[]"
      and es = "[hd example_entries]",
      THEN conjunct2, THEN conjunct2, THEN conjunct2]
  by (simp add: example_entries_ok(3))
     (simp add: example_entries_def well_formed_entry_def isspace_def LONG_MAX_def
        entry_text_def digits_of_examples entry_slots_def show_long_examples upto.simps)

text \<open>
  The claim also has a zero count, a negative count and a missing count rejected.  The
  error check is \<^verbatim>\<open>num == -1\<close>, and \<^verbatim>\<open>strtol\<close> returns 0 where it finds no number:
  \<^verbatim>\<open>alpha 0\<close>, \<^verbatim>\<open>alpha -2\<close> and \<^verbatim>\<open>alpha\<close> followed by a blank are accepted and give an
  empty registry.
\<close>

theorem parse_slave_list_accepts_zero_count:
  "parse_slave_list (Some ''alpha 0'') [] 0 [] = (0, []) \<and>
   parse_slave_list (Some ''alpha -2'') [] 0 [] = (0, []) \<and>
   parse_slave_list (Some ''alpha '') [] 0 [] = (0, [])"
  by code_simp

subsection \<open>Slots and process identifiers\<close>




















subsection \<open>A failed generation\<close>

text \<open>The exit code of the child does not depend on what \<^verbatim>\<open>system\<close> returned.\<close>

lemma generator_main_exit_code:
  "fst (snd (generator_main index_value (Some old_log) sys cfg gen)) = 0"
  by (simp add: generator_main_def logger_def Let_def)

text \<open>
  C1. The claim is that a non-zero exit code of the external command ends the coordinator.
  The child runs the command through \<^verbatim>\<open>system\<close>, prints what it returned and then calls
  \<^verbatim>\<open>exit(0)\<close> (the source says: error check not done yet).  So the status the parent
  waits for is 0 whatever the command did, and the loop goes on to the next step.  The
  parent's own test is there: a child that exits with 1 ends the coordinator.
\<close>

theorem failed_generation_not_fatal:
  "map_option snd (fst (generator_main (\<lambda>i x. \<lparr>type = HVAL_INT, value_i = x\<rparr>) (Some ''log'')
        (\<lambda>cmd. 256) (example_cfg [])
        \<lparr>pid = 0, step = 0, mesg = example_mesg, hostname = ''local_1''\<rparr>)) = Some 256 \<and>
   fst (snd (generator_main (\<lambda>i x. \<lparr>type = HVAL_INT, value_i = x\<rparr>) (Some ''log'')
        (\<lambda>cmd. 256) (example_cfg [])
        \<lparr>pid = 0, step = 0, mesg = example_mesg, hostname = ''local_1''\<rparr>)) = 0 \<and>
   main_step
     \<lparr>gen_list = [\<lparr>pid = 0, step = 7, mesg = HMESG_INITIALIZER, hostname = ''local_1''\<rparr>],
      timestep = 0, num_ready = 1, children = {}\<rparr>
     (Point example_mesg 101 (101, Exited 0) True) =
   Running
     \<lparr>gen_list = [\<lparr>pid = 0, step = 0, mesg = example_mesg, hostname = ''local_1''\<rparr>],
      timestep = 1, num_ready = 1, children = {}\<rparr> \<and>
   main_step
     \<lparr>gen_list = [\<lparr>pid = 0, step = 7, mesg = HMESG_INITIALIZER, hostname = ''local_1''\<rparr>],
      timestep = 0, num_ready = 1, children = {}\<rparr>
     (Point example_mesg 101 (101, Exited 1) True) = Exit 1"
  by (simp add: generator_main_def logger_def Let_def generator_make_def)

end
